theory Spec2Isabelle
  imports Complex_Main "HOL-Library.Sublist"
begin

section \<open>The repeat plugin: data model\<close>

text \<open>
  The embedding follows \<^verbatim>\<open>RepeatSameContentHandler.execute\<close> of
  \<^verbatim>\<open>src/plugin.py\<close>.

  \<^item> A \<^verbatim>\<open>datetime\<close> is an integer number of microseconds (the resolution of
    \<^verbatim>\<open>datetime\<close>), and so is the difference of two; the clock reading
    \<^verbatim>\<open>datetime.datetime.now()\<close> of a call is a parameter of the call.
    \<^verbatim>\<open>total_seconds()\<close> is the true division of the microseconds by \<open>10 ^ 6\<close>: the
    double nearest to the quotient, ties to even. It is modelled as that double, a
    rational number, and compared exactly with the integer option, as Python compares a
    float with an int.
  \<^item> Text is a \<open>string\<close>; \<^verbatim>\<open>len\<close> is the length of the list.
  \<^item> The five options read with \<^verbatim>\<open>get_config\<close> are Python integers, so they are
    \<open>int\<close> and may be zero or negative.
  \<^item> The two dictionaries of the handler are maps from the group id.
  \<^item> \<^verbatim>\<open>send_text\<close> belongs to the host. Whether it returns or raises is a
    parameter of the call; a raised error is a value of the result.
\<close>

record config =
  time_window_minutes :: int
  message_window_size :: int
  required_same_count :: int
  max_message_length :: int
  repeat_cooldown_minutes :: int

text \<open>The defaults passed to \<^verbatim>\<open>get_config\<close> (lines 49 to 53).\<close>

definition default_config :: config where
  "default_config = \<lparr>time_window_minutes = 5, message_window_size = 10,
     required_same_count = 3, max_message_length = 100, repeat_cooldown_minutes = 10\<rparr>"

text \<open>The fields of \<^verbatim>\<open>MaiMessages\<close> that \<^verbatim>\<open>execute\<close> reads; \<open>None\<close> is Python's.\<close>

record MaiMessages =
  is_group_message :: bool
  stream_id :: "string option"
  plain_text :: "string option"

text \<open>An element of \<^verbatim>\<open>group_messages[group_id]\<close>: the dict with keys time and content.\<close>

record msg =
  time :: int
  content :: string

text \<open>A value of \<^verbatim>\<open>last_repeated_content\<close>: the dict with keys content and timestamp.\<close>

record last_repeat =
  last_content :: string
  last_timestamp :: "int option"

record handler =
  group_messages :: "string \<rightharpoonup> msg list"
  last_repeated_content :: "string \<rightharpoonup> last_repeat"

text \<open>The handler after \<^verbatim>\<open>__init__\<close>: both dictionaries empty.\<close>

definition init :: handler where
  "init = \<lparr>group_messages = Map.empty, last_repeated_content = Map.empty\<rparr>"

text \<open>
  What a call did: nothing, or \<^verbatim>\<open>send_text(group_id, message_content)\<close> returned.
  The only error is the one \<^verbatim>\<open>send_text\<close> raises, which \<^verbatim>\<open>execute\<close> does not catch.
\<close>

datatype action = NoAction | Echo string string

datatype error = SendError string string

section \<open>The steps of execute\<close>

text \<open>A whole number of seconds as an exact duration in microseconds.\<close>

definition seconds :: "int \<Rightarrow> int" where
  "seconds n = n * 1000000"

text \<open>
  Lines 81 and 112: \<^verbatim>\<open>total_seconds()\<close>. A double has a mantissa of 53 bits. For a
  quotient \<open>a / 10 ^ 6\<close> with \<open>a > 0\<close>, the exponent \<open>k\<close> is the one that brings
  \<open>a * 2 ^ k / 10 ^ 6\<close> into the interval from \<open>2 ^ 52\<close> to \<open>2 ^ 53\<close>, the mantissa is
  that number rounded to the nearest integer, ties to even, and the double is the mantissa
  divided by \<open>2 ^ k\<close>. A difference of two \<^verbatim>\<open>datetime\<close> values is below
  \<open>2 ^ 59\<close> microseconds, so \<open>k\<close> is positive and no double of this range is
  subnormal or infinite.

  The nearest integer to \<open>a / b\<close>, ties to even:
\<close>

definition round_half_even :: "nat \<Rightarrow> nat \<Rightarrow> nat" where
  "round_half_even a b =
     (let q = a div b; r = a mod b
      in if 2 * r < b then q else if b < 2 * r then q + 1
         else if even q then q else q + 1)"

text \<open>The least \<open>k\<close> from the second argument on with \<open>2 ^ 52 * 10 ^ 6 \<le> a * 2 ^ k\<close>.\<close>

function exponent :: "nat \<Rightarrow> nat \<Rightarrow> nat" where
  "exponent a k =
     (if a = 0 \<or> 2 ^ 52 * 1000000 \<le> a * 2 ^ k then k else exponent a (k + 1))"
  by pat_completeness auto
termination
proof (relation "measure (\<lambda>(a, k). 2 ^ 52 * 1000000 - a * 2 ^ k)")
  show "wf (measure (\<lambda>(a, k). 2 ^ 52 * 1000000 - a * 2 ^ k))" by simp
next
  fix a k :: nat
  assume "\<not> (a = 0 \<or> 2 ^ 52 * 1000000 \<le> a * 2 ^ k)"
  then have a: "0 < a" and lt: "a * 2 ^ k < 2 ^ 52 * 1000000" by simp_all
  have "a * 2 ^ k < a * 2 ^ (k + 1)" using a by simp
  then have "(2 ^ 52 * 1000000 :: nat) - a * 2 ^ (k + 1) < 2 ^ 52 * 1000000 - a * 2 ^ k"
    using lt by (rule diff_less_mono2)
  then show "((a, k + 1), (a, k)) \<in> measure (\<lambda>(a, k). 2 ^ 52 * 1000000 - a * 2 ^ k)"
    by simp
qed

text \<open>The 53-bit mantissa of the double nearest to \<open>a / 10 ^ 6\<close>.\<close>

definition mantissa :: "nat \<Rightarrow> nat" where
  "mantissa a = round_half_even (a * 2 ^ exponent a 0) 1000000"

text \<open>\<^verbatim>\<open>timedelta.total_seconds()\<close> of a difference of \<open>d\<close> microseconds.\<close>

definition total_seconds :: "int \<Rightarrow> rat" where
  "total_seconds d = of_int (sgn d * int (mantissa (nat \<bar>d\<bar>))) / 2 ^ exponent (nat \<bar>d\<bar>) 0"

text \<open>Lines 81 and 82: \<^verbatim>\<open>time_diff <= time_window_seconds\<close>.\<close>

definition in_time_window :: "config \<Rightarrow> int \<Rightarrow> msg \<Rightarrow> bool" where
  "in_time_window cfg current_time m \<longleftrightarrow>
     total_seconds (current_time - time m) \<le> of_int (time_window_minutes cfg * 60)"

text \<open>
  Lines 79 to 85: the loop over the reversed list, with its \<^verbatim>\<open>break\<close>. The second
  argument is what is left of \<^verbatim>\<open>reversed(...)\<close>, the third is
  \<^verbatim>\<open>filtered_messages\<close>.
\<close>

fun scan_window :: "config \<Rightarrow> int \<Rightarrow> msg list \<Rightarrow> msg list \<Rightarrow> msg list" where
  "scan_window cfg current_time [] filtered_messages = filtered_messages"
| "scan_window cfg current_time (m # ms) filtered_messages =
     (if in_time_window cfg current_time m
      then scan_window cfg current_time ms (filtered_messages @ [m])
      else filtered_messages)"

text \<open>Line 88: \<^verbatim>\<open>filtered_messages[::-1]\<close>.\<close>

definition prune :: "config \<Rightarrow> int \<Rightarrow> msg list \<Rightarrow> msg list" where
  "prune cfg current_time msgs = rev (scan_window cfg current_time (rev msgs) [])"

text \<open>
  The slice \<^verbatim>\<open>xs[-n:]\<close> of Python: for \<open>n > 0\<close> the last \<open>n\<close> elements, for
  \<open>n = 0\<close> the whole list (\<^verbatim>\<open>-0\<close> is \<^verbatim>\<open>0\<close>), for \<open>n < 0\<close> the list without
  its first \<open>-n\<close> elements.
\<close>

definition slice_last :: "int \<Rightarrow> 'a list \<Rightarrow> 'a list" where
  "slice_last n xs = (if 0 < n then drop (length xs - nat n) xs else drop (nat (- n)) xs)"

text \<open>Lines 91 and 92.\<close>

definition limit :: "config \<Rightarrow> msg list \<Rightarrow> msg list" where
  "limit cfg msgs =
     (if int (length msgs) > message_window_size cfg
      then slice_last (message_window_size cfg) msgs else msgs)"

text \<open>Lines 95 to 98.\<close>

fun same_count :: "string \<Rightarrow> msg list \<Rightarrow> int" where
  "same_count message_content [] = 0"
| "same_count message_content (m # ms) =
     (if content m = message_content then 1 else 0) + same_count message_content ms"

text \<open>Lines 101 to 114.\<close>

definition can_repeat :: "config \<Rightarrow> last_repeat \<Rightarrow> string \<Rightarrow> int \<Rightarrow> int \<Rightarrow> bool" where
  "can_repeat cfg last_rep message_content current_time cnt =
     (if cnt \<ge> required_same_count cfg then
        (if message_content \<noteq> last_content last_rep then True
         else (case last_timestamp last_rep of
                 None \<Rightarrow> True
               | Some last_repeat_time \<Rightarrow>
                   total_seconds (current_time - last_repeat_time)
                     > of_int (repeat_cooldown_minutes cfg * 60)))
      else False)"

text \<open>Lines 64 and 65, and 68 and 69: the entries created on a group's first message.\<close>

definition recent :: "handler \<Rightarrow> string \<Rightarrow> msg list" where
  "recent s group_id = (case group_messages s group_id of None \<Rightarrow> [] | Some msgs \<Rightarrow> msgs)"

definition last_of :: "handler \<Rightarrow> string \<Rightarrow> last_repeat" where
  "last_of s group_id =
     (case last_repeated_content s group_id of
        None \<Rightarrow> \<lparr>last_content = [], last_timestamp = None\<rparr>
      | Some r \<Rightarrow> r)"

text \<open>Lines 72 to 92: the window of the group after the new message is appended.\<close>

definition window :: "config \<Rightarrow> handler \<Rightarrow> string \<Rightarrow> string \<Rightarrow> int \<Rightarrow> msg list" where
  "window cfg s group_id message_content current_time =
     limit cfg (prune cfg current_time
       (recent s group_id @ [\<lparr>time = current_time, content = message_content\<rparr>]))"

text \<open>
  Lines 61 to 126, for a message that passed the guards. The window and the lazily created
  last-repeat entry are stored before \<^verbatim>\<open>send_text\<close> is awaited; the last-repeat entry
  is overwritten after it, so only when it returned.
\<close>

definition process ::
  "config \<Rightarrow> handler \<Rightarrow> string \<Rightarrow> string \<Rightarrow> int \<Rightarrow> bool \<Rightarrow> handler \<times> (error + action)" where
  "process cfg s group_id message_content current_time send_returns =
     (let msgs = window cfg s group_id message_content current_time;
          last_rep = last_of s group_id;
          s1 = s\<lparr>group_messages := (group_messages s)(group_id \<mapsto> msgs),
                 last_repeated_content := (last_repeated_content s)(group_id \<mapsto> last_rep)\<rparr>
      in if can_repeat cfg last_rep message_content current_time (same_count message_content msgs)
         then (if send_returns
               then (s1\<lparr>last_repeated_content := (last_repeated_content s1)(group_id \<mapsto>
                         \<lparr>last_content = message_content, last_timestamp = Some current_time\<rparr>)\<rparr>,
                     Inr (Echo group_id message_content))
               else (s1, Inl (SendError group_id message_content)))
         else (s1, Inr NoAction))"

text \<open>
  \<^verbatim>\<open>execute\<close>, lines 36 to 126. Every early return leaves the handler as it was. The
  tuple the source returns is the same on every path and is left out.
\<close>

definition execute ::
  "config \<Rightarrow> handler \<Rightarrow> MaiMessages option \<Rightarrow> int \<Rightarrow> bool \<Rightarrow> handler \<times> (error + action)" where
  "execute cfg s message current_time send_returns =
     (case message of
        None \<Rightarrow> (s, Inr NoAction)
      | Some m \<Rightarrow>
          if \<not> is_group_message m then (s, Inr NoAction)
          else (case stream_id m of
                  None \<Rightarrow> (s, Inr NoAction)
                | Some group_id \<Rightarrow>
                    if group_id = [] then (s, Inr NoAction)
                    else (case plain_text m of
                            None \<Rightarrow> (s, Inr NoAction)
                          | Some message_content \<Rightarrow>
                              if message_content = []
                                 \<or> int (length message_content) > max_message_length cfg
                              then (s, Inr NoAction)
                              else process cfg s group_id message_content current_time
                                     send_returns)))"

text \<open>One call of the host: the message, the clock reading, and whether a send would return.\<close>

record call =
  call_message :: "MaiMessages option"
  call_time :: int
  call_send_returns :: bool

text \<open>The host calls \<^verbatim>\<open>execute\<close> once per message; the results are kept in order.\<close>

fun run :: "config \<Rightarrow> handler \<Rightarrow> call list \<Rightarrow> handler \<times> (error + action) list" where
  "run cfg s [] = (s, [])"
| "run cfg s (c # cs) =
     (let (s1, r) = execute cfg s (call_message c) (call_time c) (call_send_returns c);
          (s2, rs) = run cfg s1 cs
      in (s2, r # rs))"

text \<open>A group message with the given group id and text.\<close>

definition group_msg :: "string \<Rightarrow> string \<Rightarrow> MaiMessages" where
  "group_msg group_id body =
     \<lparr>is_group_message = True, stream_id = Some group_id, plain_text = Some body\<rparr>"

text \<open>The guards of lines 36 to 58 all passed.\<close>

definition accepted :: "config \<Rightarrow> string \<Rightarrow> string \<Rightarrow> bool" where
  "accepted cfg group_id body \<longleftrightarrow>
     group_id \<noteq> [] \<and> body \<noteq> [] \<and> int (length body) \<le> max_message_length cfg"


section \<open>The double nearest to a quotient\<close>

declare exponent.simps [simp del]

lemma rhe_cases:
  "round_half_even a b = a div b \<or> round_half_even a b = a div b + 1"
  by (simp add: round_half_even_def Let_def)

lemma rhe_exact: "0 < b \<Longrightarrow> round_half_even (n * b) b = n"
  by (simp add: round_half_even_def Let_def)

lemma rhe_up: "b < 2 * (a mod b) \<Longrightarrow> round_half_even a b = a div b + 1"
  by (simp add: round_half_even_def Let_def)

lemma rhe_down: "2 * (a mod b) < b \<Longrightarrow> round_half_even a b = a div b"
  by (simp add: round_half_even_def Let_def)

lemma rhe_mono:
  assumes "0 < b" and "a \<le> a'"
  shows "round_half_even a b \<le> round_half_even a' b"
proof (cases "a div b < a' div b")
  case True
  then show ?thesis using rhe_cases [of a b] rhe_cases [of a' b] by linarith
next
  case False
  then have q: "a div b = a' div b" using div_le_mono [OF assms(2), of b] by simp
  have "a mod b \<le> a' mod b"
  proof -
    have "a = a div b * b + a mod b" "a' = a' div b * b + a' mod b" by simp_all
    then show ?thesis using assms(2) q by (metis add_le_cancel_left)
  qed
  then show ?thesis using q by (auto simp: round_half_even_def Let_def)
qed

lemma exponent_ge: "k \<le> exponent a k"
proof (induction a k rule: exponent.induct)
  case (1 a k)
  show ?case
  proof (cases "a = 0 \<or> 2 ^ 52 * 1000000 \<le> a * 2 ^ k")
    case True
    then show ?thesis by (subst exponent.simps) simp
  next
    case False
    then have "k + 1 \<le> exponent a (k + 1)" using 1 by simp
    then show ?thesis using False by (subst exponent.simps) simp
  qed
qed

lemma exponent_reach: "0 < a \<Longrightarrow> 2 ^ 52 * 1000000 \<le> a * 2 ^ exponent a k"
proof (induction a k rule: exponent.induct)
  case (1 a k)
  show ?case
  proof (cases "a = 0 \<or> 2 ^ 52 * 1000000 \<le> a * 2 ^ k")
    case True
    then show ?thesis using 1(2) by (subst exponent.simps) simp
  next
    case False
    then have "2 ^ 52 * 1000000 \<le> a * 2 ^ exponent a (k + 1)" using 1 by simp
    then show ?thesis using False by (subst exponent.simps) simp
  qed
qed

lemma exponent_least:
  "k \<le> i \<Longrightarrow> i < exponent a k \<Longrightarrow> a * 2 ^ i < 2 ^ 52 * 1000000"
proof (induction a k rule: exponent.induct)
  case (1 a k)
  show ?case
  proof (cases "a = 0 \<or> 2 ^ 52 * 1000000 \<le> a * 2 ^ k")
    case True
    then have "exponent a k = k" by (subst exponent.simps) simp
    then show ?thesis using 1(2,3) by simp
  next
    case False
    then have e: "exponent a k = exponent a (k + 1)" by (subst exponent.simps) simp
    show ?thesis
    proof (cases "i = k")
      case True
      then show ?thesis using False by simp
    next
      case False
      then have "k + 1 \<le> i" using 1(2) by simp
      then show ?thesis using 1(1) [OF \<open>\<not> (a = 0 \<or> 2 ^ 52 * 1000000 \<le> a * 2 ^ k)\<close>] 1(3) e
        by simp
    qed
  qed
qed

lemma exponent_unique:
  assumes "0 < a" and "2 ^ 52 * 1000000 \<le> a * 2 ^ k"
    and "k = 0 \<or> a * 2 ^ (k - 1) < 2 ^ 52 * 1000000"
  shows "exponent a 0 = k"
proof (rule antisym)
  show "exponent a 0 \<le> k"
  proof (rule ccontr)
    assume "\<not> exponent a 0 \<le> k"
    then have "a * 2 ^ k < 2 ^ 52 * 1000000" using exponent_least [of 0 k a] by simp
    then show False using assms(2) by simp
  qed
  show "k \<le> exponent a 0"
  proof (rule ccontr)
    assume n: "\<not> k \<le> exponent a 0"
    then have "exponent a 0 \<le> k - 1" and "k \<noteq> 0" by simp_all
    then have "(2::nat) ^ exponent a 0 \<le> 2 ^ (k - 1)"
      by (intro power_increasing) simp_all
    then have "a * 2 ^ exponent a 0 \<le> a * 2 ^ (k - 1)"
      by (rule mult_le_mono2)
    moreover have "a * 2 ^ (k - 1) < 2 ^ 52 * 1000000" using assms(3) \<open>k \<noteq> 0\<close> by blast
    ultimately show False using exponent_reach [OF assms(1), of 0] by linarith
  qed
qed


lemma mantissa_le:
  assumes "a \<le> n * 1000000"
  shows "mantissa a \<le> n * 2 ^ exponent a 0"
proof -
  have "a * 2 ^ exponent a 0 \<le> (n * 2 ^ exponent a 0) * 1000000"
    using mult_le_mono1 [OF assms, of "2 ^ exponent a 0"] by (simp add: mult_ac)
  then have "mantissa a \<le> round_half_even ((n * 2 ^ exponent a 0) * 1000000) 1000000"
    unfolding mantissa_def by (intro rhe_mono) simp_all
  then show ?thesis by (simp only: rhe_exact [of 1000000, simplified])
qed

lemma mantissa_ge:
  assumes "n * 1000000 \<le> a"
  shows "n * 2 ^ exponent a 0 \<le> mantissa a"
proof -
  have "(n * 2 ^ exponent a 0) * 1000000 \<le> a * 2 ^ exponent a 0"
    using mult_le_mono1 [OF assms, of "2 ^ exponent a 0"] by (simp add: mult_ac)
  then have "round_half_even ((n * 2 ^ exponent a 0) * 1000000) 1000000 \<le> mantissa a"
    unfolding mantissa_def by (intro rhe_mono) simp_all
  then show ?thesis by (simp only: rhe_exact [of 1000000, simplified])
qed

lemma mantissa_lower: "0 < a \<Longrightarrow> 2 ^ 52 \<le> mantissa a"
proof -
  assume "0 < a"
  then have "2 ^ 52 * 1000000 \<le> a * 2 ^ exponent a 0" by (rule exponent_reach)
  then have "round_half_even (2 ^ 52 * 1000000) 1000000 \<le> mantissa a"
    unfolding mantissa_def by (intro rhe_mono) simp_all
  then show ?thesis by (simp only: rhe_exact [of 1000000, simplified])
qed


lemma small_exponent:
  assumes "2 * (2::nat) ^ k \<le> 1000000"
  shows "(2::nat) ^ k \<le> 2 ^ 18"
proof (rule ccontr)
  assume "\<not> (2::nat) ^ k \<le> 2 ^ 18"
  then have "18 < k" by (metis leI power_increasing one_le_numeral)
  then have "(2::nat) ^ 19 \<le> 2 ^ k" by (intro power_increasing) simp_all
  then show False using assms by simp
qed

lemma mantissa_gt:
  assumes n: "n < 2 ^ 34" and a: "n * 1000000 < a"
  shows "n * 2 ^ exponent a 0 < mantissa a"
proof -
  let ?P = "(2::nat) ^ exponent a 0"
  have pos: "0 < a" using a by simp
  show ?thesis
  proof (cases "2 * ?P \<le> 1000000")
    case True
    then have "?P \<le> 2 ^ 18" by (rule small_exponent)
    then have "n * ?P \<le> n * 2 ^ 18" by (rule mult_le_mono2)
    moreover have "n * 2 ^ 18 < 2 ^ 34 * 2 ^ 18"
      using n by (intro mult_strict_right_mono) simp_all
    moreover have "(2::nat) ^ 34 * 2 ^ 18 = 2 ^ 52" by simp
    ultimately have "n * ?P < 2 ^ 52" by linarith
    then show ?thesis using mantissa_lower [OF pos] by linarith
  next
    case False
    have "n * 1000000 + 1 \<le> a" using a by simp
    then have "(n * 1000000 + 1) * ?P \<le> a * ?P" by (rule mult_le_mono1)
    then have low: "(n * ?P) * 1000000 + ?P \<le> a * ?P" by (simp add: algebra_simps)
    then have "(n * ?P) * 1000000 \<le> a * ?P" by linarith
    then have q: "n * ?P \<le> a * ?P div 1000000"
      by (simp only: less_eq_div_iff_mult_less_eq [of 1000000, simplified])
    show ?thesis
    proof (cases "n * ?P < a * ?P div 1000000")
      case True
      then show ?thesis using rhe_cases [of "a * ?P" 1000000] unfolding mantissa_def by linarith
    next
      case False
      then have e: "a * ?P div 1000000 = n * ?P" using q by simp
      have "a * ?P = (a * ?P div 1000000) * 1000000 + a * ?P mod 1000000" by simp
      then have "?P \<le> a * ?P mod 1000000" using low e by linarith
      then have "1000000 < 2 * (a * ?P mod 1000000)" using \<open>\<not> 2 * ?P \<le> 1000000\<close> by linarith
      then have "mantissa a = a * ?P div 1000000 + 1"
        unfolding mantissa_def by (rule rhe_up)
      then show ?thesis using e by simp
    qed
  qed
qed

lemma mantissa_lt:
  assumes n: "n < 2 ^ 34" and a: "a < n * 1000000" and pos: "0 < a"
  shows "mantissa a < n * 2 ^ exponent a 0"
proof -
  let ?P = "(2::nat) ^ exponent a 0"
  have "a * ?P < (n * 1000000) * ?P" using a by simp
  then have up1: "a * ?P < (n * ?P) * 1000000" by (simp add: algebra_simps)
  have "2 ^ 52 * 1000000 \<le> a * ?P" using pos by (rule exponent_reach)
  then have "2 ^ 52 * 1000000 < (n * ?P) * 1000000" using up1 by linarith
  then have big: "2 ^ 52 < n * ?P" by simp
  have nP: "\<not> 2 * ?P \<le> 1000000"
  proof
    assume "2 * ?P \<le> 1000000"
    then have "?P \<le> 2 ^ 18" by (rule small_exponent)
    then have "n * ?P \<le> n * 2 ^ 18" by (rule mult_le_mono2)
    moreover have "n * 2 ^ 18 < 2 ^ 34 * 2 ^ 18"
      using n by (intro mult_strict_right_mono) simp_all
    moreover have "(2::nat) ^ 34 * 2 ^ 18 = 2 ^ 52" by simp
    ultimately show False using big by linarith
  qed
  have "a + 1 \<le> n * 1000000" using a by simp
  then have "(a + 1) * ?P \<le> (n * 1000000) * ?P" by (rule mult_le_mono1)
  then have up: "a * ?P + ?P \<le> (n * ?P) * 1000000" by (simp add: algebra_simps)
  have q: "a * ?P div 1000000 < n * ?P"
    using up1 by (simp add: div_less_iff_less_mult)
  show ?thesis
  proof (cases "a * ?P div 1000000 + 1 < n * ?P")
    case True
    then show ?thesis using rhe_cases [of "a * ?P" 1000000] unfolding mantissa_def by linarith
  next
    case False
    then have e: "a * ?P div 1000000 + 1 = n * ?P" using q by simp
    have "a * ?P = (a * ?P div 1000000) * 1000000 + a * ?P mod 1000000" by simp
    moreover have "(n * ?P) * 1000000 = (a * ?P div 1000000) * 1000000 + 1000000"
      using e [symmetric] by (simp add: algebra_simps)
    ultimately have "a * ?P mod 1000000 + ?P \<le> 1000000" using up by linarith
    then have "2 * (a * ?P mod 1000000) < 1000000" using nP by linarith
    then have "mantissa a = a * ?P div 1000000"
      unfolding mantissa_def by (rule rhe_down)
    then show ?thesis using e by simp
  qed
qed


lemma total_seconds_zero: "total_seconds 0 = 0"
  by (simp add: total_seconds_def)

lemma total_seconds_minus: "total_seconds (- d) = - total_seconds d"
  by (simp add: total_seconds_def)

lemma total_seconds_pos:
  "0 < d \<Longrightarrow> total_seconds d = of_nat (mantissa (nat d)) / 2 ^ exponent (nat d) 0"
  by (simp add: total_seconds_def)

lemma total_seconds_pos_le:
  assumes "0 < d" and "d \<le> n * 1000000"
  shows "total_seconds d \<le> of_int n"
proof -
  have n: "0 \<le> n" using assms by (smt (verit) mult_less_0_iff)
  have "nat d \<le> nat n * 1000000" using assms n by (simp add: nat_le_iff nat_mult_distrib)
  then have "mantissa (nat d) \<le> nat n * 2 ^ exponent (nat d) 0" by (rule mantissa_le)
  then have "(of_nat (mantissa (nat d)) :: rat) \<le> of_nat (nat n * 2 ^ exponent (nat d) 0)"
    by (simp only: of_nat_le_iff)
  then have "(of_nat (mantissa (nat d)) :: rat) \<le> of_int n * 2 ^ exponent (nat d) 0"
    using n by simp
  then show ?thesis
    by (simp add: total_seconds_pos [OF assms(1)] pos_divide_le_eq)
qed

lemma total_seconds_pos_ge:
  assumes "0 < d" and "0 \<le> n" and "n * 1000000 \<le> d"
  shows "of_int n \<le> total_seconds d"
proof -
  have "nat n * 1000000 \<le> nat d" using assms by (simp add: nat_le_iff nat_mult_distrib le_nat_iff)
  then have "nat n * 2 ^ exponent (nat d) 0 \<le> mantissa (nat d)" by (rule mantissa_ge)
  then have "(of_nat (nat n * 2 ^ exponent (nat d) 0) :: rat) \<le> of_nat (mantissa (nat d))"
    by (simp only: of_nat_le_iff)
  then have "(of_int n * 2 ^ exponent (nat d) 0 :: rat) \<le> of_nat (mantissa (nat d))"
    using assms(2) by simp
  then show ?thesis
    by (simp add: total_seconds_pos [OF assms(1)] pos_le_divide_eq)
qed

lemma total_seconds_pos_gt0: "0 < d \<Longrightarrow> 0 < total_seconds d"
proof -
  assume d: "0 < d"
  then have "2 ^ 52 \<le> mantissa (nat d)" by (intro mantissa_lower) simp
  then have "0 < mantissa (nat d)" by simp
  then show ?thesis by (simp add: total_seconds_pos [OF d])
qed

lemma total_seconds_le:
  assumes "d \<le> n * 1000000"
  shows "total_seconds d \<le> of_int n"
proof -
  consider "0 < d" | "d = 0" | "d < 0" by linarith
  then show ?thesis
  proof cases
    case 1
    then show ?thesis using assms by (rule total_seconds_pos_le)
  next
    case 2
    then show ?thesis using assms by (simp add: total_seconds_zero)
  next
    case 3
    then have p: "0 < - d" by simp
    show ?thesis
    proof (cases "0 \<le> n")
      case True
      have "0 < total_seconds (- d)" using p by (rule total_seconds_pos_gt0)
      then have "total_seconds d < 0" by (simp add: total_seconds_minus)
      moreover have "(0::rat) \<le> of_int n" using True by simp
      ultimately show ?thesis by linarith
    next
      case False
      then have "0 \<le> - n" and "- n * 1000000 \<le> - d" using assms by simp_all
      then have "of_int (- n) \<le> total_seconds (- d)"
        using total_seconds_pos_ge [OF p] by blast
      then show ?thesis by (simp add: total_seconds_minus)
    qed
  qed
qed


lemma total_seconds_pos_gt:
  assumes "0 < d" and "0 \<le> n" and "n < 2 ^ 34" and "n * 1000000 < d"
  shows "of_int n < total_seconds d"
proof -
  have "nat n < 2 ^ 34" using assms(2,3) by (simp add: nat_less_iff)
  moreover have "nat n * 1000000 < nat d"
    using assms by (simp add: nat_mult_distrib zless_nat_eq_int_zless)
  ultimately have "nat n * 2 ^ exponent (nat d) 0 < mantissa (nat d)" by (rule mantissa_gt)
  then have "(of_nat (nat n * 2 ^ exponent (nat d) 0) :: rat) < of_nat (mantissa (nat d))"
    by (simp only: of_nat_less_iff)
  then have "(of_int n * 2 ^ exponent (nat d) 0 :: rat) < of_nat (mantissa (nat d))"
    using assms(2) by simp
  then show ?thesis
    by (simp add: total_seconds_pos [OF assms(1)] pos_less_divide_eq)
qed

lemma total_seconds_pos_lt:
  assumes "0 < d" and "n < 2 ^ 34" and "d < n * 1000000"
  shows "total_seconds d < of_int n"
proof -
  have n: "0 \<le> n" using assms by (smt (verit) mult_less_0_iff)
  have "nat n < 2 ^ 34" using assms(2) n by (simp add: nat_less_iff)
  moreover have "nat d < nat n * 1000000"
    using assms n by (simp add: nat_mult_distrib nat_less_iff)
  moreover have "0 < nat d" using assms(1) by simp
  ultimately have "mantissa (nat d) < nat n * 2 ^ exponent (nat d) 0" by (rule mantissa_lt)
  then have "(of_nat (mantissa (nat d)) :: rat) < of_nat (nat n * 2 ^ exponent (nat d) 0)"
    by (simp only: of_nat_less_iff)
  then have "(of_nat (mantissa (nat d)) :: rat) < of_int n * 2 ^ exponent (nat d) 0"
    using n by simp
  then show ?thesis
    by (simp add: total_seconds_pos [OF assms(1)] pos_divide_less_eq)
qed

lemma total_seconds_gt:
  assumes "\<bar>n\<bar> < 2 ^ 34" and "n * 1000000 < d"
  shows "of_int n < total_seconds d"
proof -
  consider "0 < d" | "d = 0" | "d < 0" by linarith
  then show ?thesis
  proof cases
    case 1
    show ?thesis
    proof (cases "0 \<le> n")
      case True
      then show ?thesis using 1 assms by (intro total_seconds_pos_gt) simp_all
    next
      case False
      then have "(of_int n :: rat) < 0" by simp
      then show ?thesis using total_seconds_pos_gt0 [OF 1] by linarith
    qed
  next
    case 2
    then have "n < 0" using assms(2) by simp
    then show ?thesis using 2 by (simp add: total_seconds_zero)
  next
    case 3
    then have p: "0 < - d" by simp
    have "- d < - n * 1000000" using assms(2) by simp
    moreover have "- n < 2 ^ 34" using assms(1) by simp
    ultimately have "total_seconds (- d) < of_int (- n)"
      using total_seconds_pos_lt [OF p] by blast
    then show ?thesis by (simp add: total_seconds_minus)
  qed
qed


lemma total_seconds_gt_imp:
  "of_int n < total_seconds d \<Longrightarrow> n * 1000000 < d"
  using total_seconds_le [of d n] by (cases "d \<le> n * 1000000") simp_all

lemma total_seconds_gt_minutes:
  "of_int n * 60 < total_seconds d \<Longrightarrow> 60000000 * n < d"
  using total_seconds_gt_imp [of "n * 60" d] by simp

lemma total_seconds_le_iff:
  "\<bar>n\<bar> < 2 ^ 34 \<Longrightarrow> total_seconds d \<le> of_int n \<longleftrightarrow> d \<le> n * 1000000"
  using total_seconds_le [of d n] total_seconds_gt [of n d] by fastforce

lemma in_time_window_le:
  "t - time m \<le> seconds (time_window_minutes cfg * 60) \<Longrightarrow> in_time_window cfg t m"
  unfolding in_time_window_def seconds_def by (rule total_seconds_le)

lemma in_time_window_exact:
  "\<bar>time_window_minutes cfg * 60\<bar> < 2 ^ 34 \<Longrightarrow>
   in_time_window cfg t m \<longleftrightarrow> t - time m \<le> seconds (time_window_minutes cfg * 60)"
  unfolding in_time_window_def seconds_def by (rule total_seconds_le_iff)


lemma can_repeat_exact:
  "\<bar>repeat_cooldown_minutes cfg * 60\<bar> < 2 ^ 34 \<Longrightarrow>
   can_repeat cfg last_rep c t cnt =
     (if cnt \<ge> required_same_count cfg then
        (if c \<noteq> last_content last_rep then True
         else (case last_timestamp last_rep of
                 None \<Rightarrow> True
               | Some t0 \<Rightarrow> t - t0 > seconds (repeat_cooldown_minutes cfg * 60)))
      else False)"
  using total_seconds_le_iff [of "repeat_cooldown_minutes cfg * 60"]
  by (auto simp: can_repeat_def seconds_def not_le [symmetric] split: option.splits)

section \<open>Basic facts\<close>

lemma execute_group_msg:
  "accepted cfg g c \<Longrightarrow>
   execute cfg s (Some (group_msg g c)) t ok = process cfg s g c t ok"
  by (simp add: execute_def group_msg_def accepted_def)

lemma scan_window_takeWhile:
  "scan_window cfg t ms acc = acc @ takeWhile (in_time_window cfg t) ms"
  by (induction ms arbitrary: acc) simp_all

lemma prune_takeWhile:
  "prune cfg t msgs = rev (takeWhile (in_time_window cfg t) (rev msgs))"
  by (simp add: prune_def scan_window_takeWhile)

section \<open>The window\<close>

lemma same_count_filter:
  "same_count c ms = int (length (filter (\<lambda>m. content m = c) ms))"
  by (induction ms) simp_all

lemma same_count_append:
  "same_count c (xs @ ys) = same_count c xs + same_count c ys"
  by (induction xs) simp_all

lemma same_count_nonneg: "0 \<le> same_count c ms"
  by (simp add: same_count_filter)

lemma same_count_suffix_zero:
  "suffix zs xs \<Longrightarrow> same_count c xs = 0 \<Longrightarrow> same_count c zs = 0"
proof -
  assume "suffix zs xs" and z: "same_count c xs = 0"
  then obtain ys where "xs = ys @ zs" by (auto simp: suffix_def)
  then have "same_count c ys + same_count c zs = 0" using z by (simp add: same_count_append)
  then show ?thesis using same_count_nonneg [of c ys] same_count_nonneg [of c zs] by linarith
qed

lemma prune_suffix: "suffix (prune cfg t msgs) msgs"
proof -
  have "prefix (takeWhile (in_time_window cfg t) (rev msgs)) (rev msgs)"
    by (metis takeWhile_dropWhile_id prefixI)
  then show ?thesis
    by (simp add: prune_takeWhile suffix_to_prefix)
qed

lemma prune_in_window:
  "m \<in> set (prune cfg t msgs) \<Longrightarrow> in_time_window cfg t m"
  by (auto simp: prune_takeWhile dest: set_takeWhileD)

lemma slice_last_suffix: "suffix (slice_last n xs) xs"
  by (simp add: slice_last_def suffix_drop)

lemma limit_suffix: "suffix (limit cfg msgs) msgs"
  by (simp add: limit_def slice_last_suffix)

lemma limit_length:
  "1 \<le> message_window_size cfg \<Longrightarrow> int (length (limit cfg msgs)) \<le> message_window_size cfg"
  by (auto simp: limit_def slice_last_def)

lemma window_suffix:
  "suffix (window cfg s g c t) (recent s g @ [\<lparr>time = t, content = c\<rparr>])"
  unfolding window_def by (rule suffix_order.trans [OF limit_suffix prune_suffix])

lemma window_in_window:
  "m \<in> set (window cfg s g c t) \<Longrightarrow> in_time_window cfg t m"
  unfolding window_def using set_mono_suffix [OF limit_suffix] prune_in_window by blast

lemma window_length:
  "1 \<le> message_window_size cfg \<Longrightarrow> int (length (window cfg s g c t)) \<le> message_window_size cfg"
  unfolding window_def by (rule limit_length)

lemma prune_keeps_tail:
  assumes "\<forall>m \<in> set us. in_time_window cfg t m"
  shows "prune cfg t (xs @ us) = prune cfg t xs @ us"
proof -
  have "takeWhile (in_time_window cfg t) (rev us @ rev xs)
        = rev us @ takeWhile (in_time_window cfg t) (rev xs)"
    using assms by (intro takeWhile_append2) simp
  then show ?thesis by (simp add: prune_takeWhile)
qed

lemma limit_keeps_tail:
  assumes "int (length us) \<le> message_window_size cfg" and "us \<noteq> []"
  shows "\<exists>zs. suffix zs ys \<and> limit cfg (ys @ us) = zs @ us"
proof (cases "int (length (ys @ us)) > message_window_size cfg")
  case False
  then show ?thesis by (auto simp: limit_def)
next
  case True
  have pos: "0 < message_window_size cfg" using assms by (cases us) auto
  let ?k = "length (ys @ us) - nat (message_window_size cfg)"
  have "?k \<le> length ys" using assms pos by simp
  then have "drop ?k (ys @ us) = drop ?k ys @ us" by simp
  then have "limit cfg (ys @ us) = drop ?k ys @ us"
    using True pos by (simp add: limit_def slice_last_def)
  then show ?thesis using suffix_drop by blast
qed

lemma keeps_tail:
  assumes "\<forall>m \<in> set us. in_time_window cfg t m"
    and "int (length us) \<le> message_window_size cfg" and "us \<noteq> []"
  shows "\<exists>zs. suffix zs xs \<and> limit cfg (prune cfg t (xs @ us)) = zs @ us"
proof -
  obtain zs where "suffix zs (prune cfg t xs)" "limit cfg (prune cfg t xs @ us) = zs @ us"
    using limit_keeps_tail [OF assms(2,3)] by blast
  then show ?thesis
    using prune_keeps_tail [OF assms(1), of xs] prune_suffix [of cfg t xs]
    by (auto intro: suffix_order.trans)
qed

section \<open>The calls\<close>

lemma process_recent: "recent (fst (process cfg s g c t ok)) g = window cfg s g c t"
  by (simp add: process_def Let_def recent_def)

lemma process_snd:
  "snd (process cfg s g c t ok) =
     (if can_repeat cfg (last_of s g) c t (same_count c (window cfg s g c t))
      then (if ok then Inr (Echo g c) else Inl (SendError g c))
      else Inr NoAction)"
  by (simp add: process_def Let_def)

lemma process_last:
  "last_of (fst (process cfg s g c t ok)) g =
     (if can_repeat cfg (last_of s g) c t (same_count c (window cfg s g c t)) \<and> ok
      then \<lparr>last_content = c, last_timestamp = Some t\<rparr>
      else last_of s g)"
  by (simp add: process_def Let_def last_of_def)

lemma process_other:
  "g' \<noteq> g \<Longrightarrow> group_messages (fst (process cfg s g c t ok)) g' = group_messages s g'"
  "g' \<noteq> g \<Longrightarrow>
     last_repeated_content (fst (process cfg s g c t ok)) g' = last_repeated_content s g'"
  by (simp_all add: process_def Let_def)

lemma execute_cases:
  "execute cfg s message t ok = (s, Inr NoAction) \<or>
   (\<exists>g c. message = Some (group_msg g c) \<and> accepted cfg g c \<and>
      execute cfg s message t ok = process cfg s g c t ok)"
proof (cases message)
  case None
  then show ?thesis by (simp add: execute_def)
next
  case (Some m)
  obtain a b d where m: "m = \<lparr>is_group_message = a, stream_id = b, plain_text = d\<rparr>"
    by (cases m)
  show ?thesis
    by (cases a; cases b; cases d)
      (simp_all add: Some m execute_def group_msg_def accepted_def)
qed

lemma run_Cons_fst:
  "fst (run cfg s (c # cs)) =
     fst (run cfg (fst (execute cfg s (call_message c) (call_time c) (call_send_returns c))) cs)"
  by (simp add: case_prod_beta Let_def)

lemma run_Cons_snd:
  "snd (run cfg s (c # cs)) =
     snd (execute cfg s (call_message c) (call_time c) (call_send_returns c))
     # snd (run cfg (fst (execute cfg s (call_message c) (call_time c) (call_send_returns c))) cs)"
  by (simp add: case_prod_beta Let_def)


section \<open>Inputs that are ignored\<close>

text \<open>
  Claim C6. When the message is absent, is not a group message, has no group id or an empty
  one, has no text or an empty one, or has a text longer than \<open>max_message_length\<close>,
  \<open>execute\<close> returns normally without sending, and the handler (the messages and the
  last repeat of every group) is exactly as before.
\<close>

theorem noop_on_rejected_input:
  assumes "message = None \<or>
     (\<exists>m. message = Some m \<and>
        (\<not> is_group_message m \<or> stream_id m = None \<or> stream_id m = Some [] \<or>
         plain_text m = None \<or> plain_text m = Some [] \<or>
         (\<exists>c. plain_text m = Some c \<and> int (length c) > max_message_length cfg)))"
  shows "execute cfg s message t ok = (s, Inr NoAction)"
  using assms by (auto simp: execute_def split: option.splits)

theorem noop_on_rejected_input_witness:
  "execute (default_config\<lparr>max_message_length := 2\<rparr>) init
     (Some (group_msg ''g'' ''abc'')) 0 True = (init, Inr NoAction)"
  using noop_on_rejected_input [where message = "Some (group_msg ''g'' ''abc'')"
      and cfg = "default_config\<lparr>max_message_length := 2\<rparr>" and s = init and t = 0
      and ok = True]
  by (simp add: group_msg_def default_config_def)

section \<open>The time window\<close>



text \<open>
  Claim C5, as amended. After a call that passed the guards, every entry left in the list
  of the message's own group is at most \<open>time_window_minutes\<close> old at the clock reading
  of the call, as lines 81 and 82 test it: the double that \<^verbatim>\<open>total_seconds()\<close>
  returns for its age is at most \<open>time_window_minutes * 60\<close>. When the window is shorter
  than \<open>2 ^ 34\<close> seconds, that is the exact bound on the age in microseconds.
\<close>

theorem time_bound:
  assumes "accepted cfg g c"
  shows "\<forall>m \<in> set (recent (fst (execute cfg s (Some (group_msg g c)) t ok)) g).
           total_seconds (t - time m) \<le> of_int (time_window_minutes cfg * 60) \<and>
           (\<bar>time_window_minutes cfg * 60\<bar> < 2 ^ 34 \<longrightarrow>
              t - time m \<le> seconds (time_window_minutes cfg * 60))"
proof
  fix m
  assume "m \<in> set (recent (fst (execute cfg s (Some (group_msg g c)) t ok)) g)"
  then have w: "in_time_window cfg t m"
    using assms window_in_window [of m cfg s g c t]
    by (simp add: execute_group_msg process_recent)
  then show "total_seconds (t - time m) \<le> of_int (time_window_minutes cfg * 60) \<and>
           (\<bar>time_window_minutes cfg * 60\<bar> < 2 ^ 34 \<longrightarrow>
              t - time m \<le> seconds (time_window_minutes cfg * 60))"
    using in_time_window_exact [of cfg t m] by (simp add: in_time_window_def)
qed

theorem time_bound_witness:
  "accepted default_config ''g'' ''a'' \<and>
   list_all (\<lambda>m. 600000000 - time m \<le> seconds (time_window_minutes default_config * 60))
     (recent (fst (execute default_config
        (init\<lparr>group_messages := [''g'' \<mapsto> [\<lparr>time = 0, content = ''b''\<rparr>]]\<rparr>)
        (Some (group_msg ''g'' ''a'')) 600000000 True)) ''g'')"
  using time_bound [where cfg = default_config and g = "''g''" and c = "''a''"
      and t = 600000000 and ok = True
      and s = "init\<lparr>group_messages := [''g'' \<mapsto> [\<lparr>time = 0, content = ''b''\<rparr>]]\<rparr>"]
  by (simp add: accepted_def default_config_def list_all_iff)

text \<open>
  Claim C5 as stated fails for a group other than the one of the message: after a message
  of group \<open>h\<close> at 600 s, the list of group \<open>g\<close> still holds its entry of 0 s, which is
  older than the window of 300 s. Lines 80 to 88 prune the list of one group only.
\<close>

theorem time_bound_counterexample:
  "recent (fst (run default_config init
     [\<lparr>call_message = Some (group_msg ''g'' ''A''), call_time = 0, call_send_returns = True\<rparr>,
      \<lparr>call_message = Some (group_msg ''h'' ''B''), call_time = 600000000,
        call_send_returns = True\<rparr>])) ''g''
   = [\<lparr>time = 0, content = ''A''\<rparr>] \<and>
   \<not> 600000000 - time \<lparr>time = 0, content = ''A''\<rparr>
       \<le> seconds (time_window_minutes default_config * 60) \<and>
   \<not> in_time_window default_config 600000000 \<lparr>time = 0, content = ''A''\<rparr>"
  by (simp add: execute_def process_def window_def prune_def limit_def slice_last_def
      in_time_window_exact seconds_def recent_def last_of_def can_repeat_exact group_msg_def
      default_config_def init_def Let_def)

section \<open>Groups are independent\<close>

lemma execute_other:
  assumes "\<forall>m. message = Some m \<longrightarrow> stream_id m \<noteq> Some g'"
  shows "group_messages (fst (execute cfg s message t ok)) g' = group_messages s g'"
    and "last_repeated_content (fst (execute cfg s message t ok)) g' = last_repeated_content s g'"
  using assms execute_cases [of cfg s message t ok]
  by (auto simp: process_other group_msg_def)

lemma recent_cong: "group_messages s g = group_messages s' g \<Longrightarrow> recent s g = recent s' g"
  by (simp add: recent_def)

lemma last_of_cong:
  "last_repeated_content s g = last_repeated_content s' g \<Longrightarrow> last_of s g = last_of s' g"
  by (simp add: last_of_def)

lemma window_cong:
  "group_messages s g = group_messages s' g \<Longrightarrow> window cfg s g c t = window cfg s' g c t"
  by (simp add: window_def recent_def)

lemma process_group_messages:
  "group_messages (fst (process cfg s g c t ok)) g = Some (window cfg s g c t)"
  by (simp add: process_def Let_def)

lemma process_last_repeated:
  "last_repeated_content (fst (process cfg s g c t ok)) g =
     Some (if can_repeat cfg (last_of s g) c t (same_count c (window cfg s g c t)) \<and> ok
           then \<lparr>last_content = c, last_timestamp = Some t\<rparr> else last_of s g)"
  by (simp add: process_def Let_def)

lemma execute_cases_all:
  "(\<forall>s. execute cfg s message t ok = (s, Inr NoAction)) \<or>
   (\<exists>g c. message = Some (group_msg g c) \<and> accepted cfg g c \<and>
      (\<forall>s. execute cfg s message t ok = process cfg s g c t ok))"
proof (cases message)
  case None
  then show ?thesis by (simp add: execute_def)
next
  case (Some m)
  obtain a b d where m: "m = \<lparr>is_group_message = a, stream_id = b, plain_text = d\<rparr>"
    by (cases m)
  show ?thesis
    by (cases a; cases b; cases d)
      (simp_all add: Some m execute_def group_msg_def accepted_def)
qed

text \<open>
  Claim C8. A call for a message of group \<open>g\<close> leaves the messages and the last repeat of
  every other group exactly as they were; and what the call does (what it sends, and what
  it stores for \<open>g\<close>) is the same in two handlers that agree on \<open>g\<close>, whatever they
  hold for other groups.
\<close>

theorem group_isolation:
  assumes "stream_id m = Some g"
  shows
  "(g' \<noteq> g \<longrightarrow>
      group_messages (fst (execute cfg s (Some m) t ok)) g' = group_messages s g' \<and>
      last_repeated_content (fst (execute cfg s (Some m) t ok)) g'
        = last_repeated_content s g') \<and>
   (group_messages s g = group_messages s' g \<and>
    last_repeated_content s g = last_repeated_content s' g \<longrightarrow>
      snd (execute cfg s (Some m) t ok) = snd (execute cfg s' (Some m) t ok) \<and>
      group_messages (fst (execute cfg s (Some m) t ok)) g
        = group_messages (fst (execute cfg s' (Some m) t ok)) g \<and>
      last_repeated_content (fst (execute cfg s (Some m) t ok)) g
        = last_repeated_content (fst (execute cfg s' (Some m) t ok)) g)"
proof (intro conjI impI)
  assume "g' \<noteq> g"
  then have "\<forall>m'. Some m = Some m' \<longrightarrow> stream_id m' \<noteq> Some g'"
    using assms by simp
  then show "group_messages (fst (execute cfg s (Some m) t ok)) g' = group_messages s g'"
    and "last_repeated_content (fst (execute cfg s (Some m) t ok)) g'
        = last_repeated_content s g'"
    by (rule execute_other)+
next
  assume eq: "group_messages s g = group_messages s' g \<and>
    last_repeated_content s g = last_repeated_content s' g"
  consider "\<forall>s. execute cfg s (Some m) t ok = (s, Inr NoAction)"
    | c where "m = group_msg g c" "\<forall>s. execute cfg s (Some m) t ok = process cfg s g c t ok"
    using execute_cases_all [of cfg "Some m" t ok] assms by (auto simp: group_msg_def)
  then have "snd (execute cfg s (Some m) t ok) = snd (execute cfg s' (Some m) t ok) \<and>
      group_messages (fst (execute cfg s (Some m) t ok)) g
        = group_messages (fst (execute cfg s' (Some m) t ok)) g \<and>
      last_repeated_content (fst (execute cfg s (Some m) t ok)) g
        = last_repeated_content (fst (execute cfg s' (Some m) t ok)) g"
  proof cases
    case 1
    then show ?thesis using eq by simp
  next
    case 2
    then show ?thesis using eq
      by (simp add: process_snd process_group_messages process_last_repeated
          window_cong [of s g s'] last_of_cong [of s g s'])
  qed
  then show "snd (execute cfg s (Some m) t ok) = snd (execute cfg s' (Some m) t ok)"
    and "group_messages (fst (execute cfg s (Some m) t ok)) g
        = group_messages (fst (execute cfg s' (Some m) t ok)) g"
    and "last_repeated_content (fst (execute cfg s (Some m) t ok)) g
        = last_repeated_content (fst (execute cfg s' (Some m) t ok)) g"
    by simp_all
qed

theorem group_isolation_witness:
  "stream_id (group_msg ''g'' ''a'') = Some ''g'' \<and>
   group_messages (fst (execute default_config
       (init\<lparr>group_messages := [''h'' \<mapsto> [\<lparr>time = 0, content = ''a''\<rparr>]]\<rparr>)
       (Some (group_msg ''g'' ''a'')) 5 True)) ''h''
     = Some [\<lparr>time = 0, content = ''a''\<rparr>] \<and>
   snd (execute default_config
       (init\<lparr>group_messages := [''h'' \<mapsto> [\<lparr>time = 0, content = ''a''\<rparr>]]\<rparr>)
       (Some (group_msg ''g'' ''a'')) 5 True)
     = snd (execute default_config init (Some (group_msg ''g'' ''a'')) 5 True)"
  using group_isolation [where m = "group_msg ''g'' ''a''" and g = "''g''" and g' = "''h''"
      and cfg = default_config and t = 5 and ok = True and s' = init
      and s = "init\<lparr>group_messages := [''h'' \<mapsto> [\<lparr>time = 0, content = ''a''\<rparr>]]\<rparr>"]
  by (simp add: group_msg_def init_def)

section \<open>The message window\<close>

lemma execute_length:
  assumes "1 \<le> message_window_size cfg"
    and "int (length (recent s g)) \<le> message_window_size cfg"
  shows "int (length (recent (fst (execute cfg s message t ok)) g)) \<le> message_window_size cfg"
proof -
  consider "execute cfg s message t ok = (s, Inr NoAction)"
    | h c where "message = Some (group_msg h c)" "execute cfg s message t ok = process cfg s h c t ok"
    using execute_cases [of cfg s message t ok] by blast
  then show ?thesis
  proof cases
    case 1
    then show ?thesis using assms by simp
  next
    case 2
    show ?thesis
    proof (cases "h = g")
      case True
      then show ?thesis using 2 assms(1) by (simp add: process_recent window_length)
    next
      case False
      then have "recent (fst (process cfg s h c t ok)) g = recent s g"
        by (intro recent_cong process_other) simp
      then show ?thesis using 2 assms(2) by simp
    qed
  qed
qed

lemma run_length:
  assumes "1 \<le> message_window_size cfg"
  shows "int (length (recent s g)) \<le> message_window_size cfg \<Longrightarrow>
         int (length (recent (fst (run cfg s cs)) g)) \<le> message_window_size cfg"
proof (induction cs arbitrary: s)
  case Nil
  then show ?case by simp
next
  case (Cons c cs)
  show ?case
    unfolding run_Cons_fst
    by (rule Cons.IH) (rule execute_length [OF assms Cons.prems])
qed

text \<open>
  For a \<open>message_window_size\<close> of at least 1, lines 91 and 92 keep the most recent
  \<open>message_window_size\<close> entries, and the bound holds for every group after every
  sequence of calls on a new handler.
\<close>

lemma window_bound:
  assumes "1 \<le> message_window_size cfg"
  shows "int (length (recent (fst (run cfg init cs)) g)) \<le> message_window_size cfg"
  using assms by (intro run_length) (simp_all add: recent_def init_def)

text \<open>
  Claim C4. After every call the list of every group has at most \<open>message_window_size\<close>
  entries. The code breaks this for \<open>message_window_size = 0\<close>: after one message that
  passes the guards the list has one entry, line 91 finds it longer than 0, and the slice
  \<^verbatim>\<open>xs[-0:]\<close> of line 92 is the whole list, so the entry stays.
\<close>

theorem window_not_truncated_at_zero:
  "recent (fst (run (default_config\<lparr>message_window_size := 0\<rparr>) init
        [\<lparr>call_message = Some (group_msg ''g'' ''A''), call_time = 0,
          call_send_returns = True\<rparr>])) ''g''
     = [\<lparr>time = 0, content = ''A''\<rparr>] \<and>
   \<not> int (length (recent (fst (run (default_config\<lparr>message_window_size := 0\<rparr>) init
        [\<lparr>call_message = Some (group_msg ''g'' ''A''), call_time = 0,
          call_send_returns = True\<rparr>])) ''g''))
     \<le> message_window_size (default_config\<lparr>message_window_size := 0\<rparr>)"
  by (simp add: execute_def group_msg_def default_config_def process_def window_def
      prune_def limit_def slice_last_def in_time_window_exact seconds_def recent_def init_def
      can_repeat_exact last_of_def Let_def)

section \<open>Echo and cooldown\<close>

lemmas step_defs = execute_def process_def window_def prune_def limit_def slice_last_def
  in_time_window_exact seconds_def recent_def last_of_def can_repeat_exact group_msg_def
  default_config_def init_def Let_def

lemma execute_echo:
  assumes "execute cfg s0 message t0 ok0 = (s1, Inr (Echo g a))"
  shows "accepted cfg g a" and "last_of s1 g = \<lparr>last_content = a, last_timestamp = Some t0\<rparr>"
proof -
  from execute_cases [of cfg s0 message t0 ok0] assms
  obtain h c where h: "accepted cfg h c" "process cfg s0 h c t0 ok0 = (s1, Inr (Echo g a))"
    by auto
  from h(2) have r: "snd (process cfg s0 h c t0 ok0) = Inr (Echo g a)"
    and s1: "s1 = fst (process cfg s0 h c t0 ok0)" by simp_all
  from r have eq: "h = g" "c = a"
    and cr: "can_repeat cfg (last_of s0 g) a t0 (same_count a (window cfg s0 g a t0)) \<and> ok0"
    by (auto simp: process_snd split: if_splits)
  show "accepted cfg g a" using h(1) eq by simp
  show "last_of s1 g = \<lparr>last_content = a, last_timestamp = Some t0\<rparr>"
    using cr unfolding s1 eq by (simp add: process_last)
qed

lemma execute_quiet_last:
  assumes "snd (execute cfg s message t ok) = Inr NoAction"
  shows "last_of (fst (execute cfg s message t ok)) g = last_of s g"
proof -
  consider "execute cfg s message t ok = (s, Inr NoAction)"
    | h c where "execute cfg s message t ok = process cfg s h c t ok"
    using execute_cases [of cfg s message t ok] by blast
  then show ?thesis
  proof cases
    case 1
    then show ?thesis by simp
  next
    case 2
    then have q: "snd (process cfg s h c t ok) = Inr NoAction" using assms by simp
    show ?thesis
    proof (cases "h = g")
      case True
      then show ?thesis using q
        by (simp add: 2 process_snd process_last split: if_splits)
    next
      case False
      then have "last_of (fst (process cfg s h c t ok)) g = last_of s g"
        by (intro last_of_cong process_other) simp
      then show ?thesis using 2 by simp
    qed
  qed
qed

lemma run_quiet_last:
  "\<forall>r \<in> set (snd (run cfg s cs)). r = Inr NoAction \<Longrightarrow>
   last_of (fst (run cfg s cs)) g = last_of s g"
proof (induction cs arbitrary: s)
  case Nil
  then show ?case by simp
next
  case (Cons c cs)
  from Cons.prems have q: "snd (execute cfg s (call_message c) (call_time c) (call_send_returns c))
      = Inr NoAction"
    and rest: "\<forall>r \<in> set (snd (run cfg (fst (execute cfg s (call_message c) (call_time c)
        (call_send_returns c))) cs)). r = Inr NoAction"
    by (simp_all add: run_Cons_snd del: run.simps)
  show ?case
    using Cons.IH [OF rest] execute_quiet_last [OF q, of g]
    by (simp add: run_Cons_fst del: run.simps)
qed

lemma can_repeat_other_content:
  "c \<noteq> last_content lr \<Longrightarrow> can_repeat cfg lr c t n \<longleftrightarrow> required_same_count cfg \<le> n"
  by (simp add: can_repeat_def)

lemma can_repeat_same_content:
  "can_repeat cfg \<lparr>last_content = c, last_timestamp = Some t0\<rparr> c t n \<longleftrightarrow>
     required_same_count cfg \<le> n \<and>
     of_int (repeat_cooldown_minutes cfg * 60) < total_seconds (t - t0)"
  by (simp add: can_repeat_def)

lemma can_repeat_in_cooldown:
  "t - t0 \<le> seconds (repeat_cooldown_minutes cfg * 60) \<Longrightarrow>
   \<not> can_repeat cfg \<lparr>last_content = c, last_timestamp = Some t0\<rparr> c t n"
  using total_seconds_le [of "t - t0" "repeat_cooldown_minutes cfg * 60"]
  by (simp add: can_repeat_same_content seconds_def)

lemma can_repeat_after_cooldown:
  "\<bar>repeat_cooldown_minutes cfg * 60\<bar> < 2 ^ 34 \<Longrightarrow>
   seconds (repeat_cooldown_minutes cfg * 60) < t - t0 \<Longrightarrow>
   required_same_count cfg \<le> n \<Longrightarrow>
   can_repeat cfg \<lparr>last_content = c, last_timestamp = Some t0\<rparr> c t n"
  using total_seconds_gt [of "repeat_cooldown_minutes cfg * 60" "t - t0"]
  by (simp add: can_repeat_same_content seconds_def)

lemma execute_last_kept:
  assumes "\<forall>x. snd (execute cfg s message t ok) \<noteq> Inr (Echo g x)"
  shows "last_of (fst (execute cfg s message t ok)) g = last_of s g"
proof -
  consider "execute cfg s message t ok = (s, Inr NoAction)"
    | h c where "execute cfg s message t ok = process cfg s h c t ok"
    using execute_cases [of cfg s message t ok] by blast
  then show ?thesis
  proof cases
    case 1
    then show ?thesis by simp
  next
    case 2
    then have q: "\<forall>x. snd (process cfg s h c t ok) \<noteq> Inr (Echo g x)" using assms by simp
    show ?thesis
    proof (cases "h = g")
      case True
      then show ?thesis using q
        by (simp add: 2 process_snd process_last split: if_splits)
    next
      case False
      then have "last_of (fst (process cfg s h c t ok)) g = last_of s g"
        by (intro last_of_cong process_other) simp
      then show ?thesis using 2 by simp
    qed
  qed
qed

lemma execute_in_cooldown:
  assumes "last_of s g = \<lparr>last_content = a, last_timestamp = Some t0\<rparr>"
    and "t - t0 \<le> seconds (repeat_cooldown_minutes cfg * 60)"
  shows "snd (execute cfg s (Some (group_msg g a)) t ok) = Inr NoAction"
proof (cases "accepted cfg g a")
  case True
  then show ?thesis using assms
    by (simp add: execute_group_msg process_snd can_repeat_in_cooldown)
next
  case False
  then show ?thesis by (auto simp: execute_def group_msg_def accepted_def)
qed

lemma run_record_kept:
  assumes "last_of s g = \<lparr>last_content = a, last_timestamp = Some t0\<rparr>"
    and "\<forall>(c, r) \<in> set (zip cs (snd (run cfg s cs))).
           (call_message c = Some (group_msg g a) \<and>
            call_time c - t0 \<le> seconds (repeat_cooldown_minutes cfg * 60)) \<or>
           (\<forall>x. r \<noteq> Inr (Echo g x))"
  shows "(\<forall>(c, r) \<in> set (zip cs (snd (run cfg s cs))).
           call_message c = Some (group_msg g a) \<and>
           call_time c - t0 \<le> seconds (repeat_cooldown_minutes cfg * 60) \<longrightarrow>
           r = Inr NoAction) \<and>
         last_of (fst (run cfg s cs)) g = \<lparr>last_content = a, last_timestamp = Some t0\<rparr>"
  using assms
proof (induction cs arbitrary: s)
  case Nil
  then show ?case by simp
next
  case (Cons c cs)
  let ?e = "execute cfg s (call_message c) (call_time c) (call_send_returns c)"
  let ?P = "\<lambda>c. call_message c = Some (group_msg g a) \<and>
            call_time c - t0 \<le> seconds (repeat_cooldown_minutes cfg * 60)"
  have z: "zip (c # cs) (snd (run cfg s (c # cs)))
      = (c, snd ?e) # zip cs (snd (run cfg (fst ?e) cs))"
    by (simp add: run_Cons_snd del: run.simps(2))
  have silent: "snd ?e = Inr NoAction" if "?P c"
    using that execute_in_cooldown [OF Cons.prems(1), of "call_time c" cfg "call_send_returns c"]
    by simp
  have "?P c \<or> (\<forall>x. snd ?e \<noteq> Inr (Echo g x))"
    using Cons.prems(2) unfolding z by simp
  then have "\<forall>x. snd ?e \<noteq> Inr (Echo g x)" using silent by auto
  then have l: "last_of (fst ?e) g = \<lparr>last_content = a, last_timestamp = Some t0\<rparr>"
    using execute_last_kept [of cfg s "call_message c" "call_time c" "call_send_returns c" g]
      Cons.prems(1) by simp
  have rest: "\<forall>(c, r) \<in> set (zip cs (snd (run cfg (fst ?e) cs))). ?P c \<or>
      (\<forall>x. r \<noteq> Inr (Echo g x))"
    using Cons.prems(2) unfolding z by simp
  from Cons.IH [OF l rest] silent show ?case
    unfolding z by (simp add: run_Cons_fst del: run.simps(2))
qed

lemma window_tail:
  assumes "recent s g = zs @ us"
    and "\<forall>m \<in> set us. in_time_window cfg t m"
    and "0 \<le> seconds (time_window_minutes cfg * 60)"
    and "int (length us) + 1 \<le> message_window_size cfg"
  shows "\<exists>zs'. suffix zs' zs \<and> window cfg s g c t = zs' @ us @ [\<lparr>time = t, content = c\<rparr>]"
proof -
  let ?e = "\<lparr>time = t, content = c\<rparr>"
  have "\<forall>m \<in> set (us @ [?e]). in_time_window cfg t m"
    using assms(2,3) by (simp add: in_time_window_le)
  moreover have "int (length (us @ [?e])) \<le> message_window_size cfg"
    using assms(4) by simp
  ultimately obtain zs' where "suffix zs' zs"
      "limit cfg (prune cfg t (zs @ (us @ [?e]))) = zs' @ (us @ [?e])"
    using keeps_tail [of "us @ [?e]" cfg t zs] by auto
  then show ?thesis using assms(1) by (auto simp: window_def)
qed

lemma process_quiet:
  assumes "same_count c (window cfg s g c t) < required_same_count cfg"
  shows "snd (process cfg s g c t ok) = Inr NoAction"
    and "last_of (fst (process cfg s g c t ok)) g = last_of s g"
  using assms by (simp_all add: process_snd process_last can_repeat_def)

lemma three_in_a_row:
  assumes req: "required_same_count cfg = 3" and size: "3 \<le> message_window_size cfg"
    and acc: "accepted cfg g a"
    and dist: "t1 \<noteq> t2"
    and w12: "\<bar>t2 - t1\<bar> \<le> seconds (time_window_minutes cfg * 60)"
    and w13: "\<bar>t3 - t1\<bar> \<le> seconds (time_window_minutes cfg * 60)"
    and w23: "\<bar>t3 - t2\<bar> \<le> seconds (time_window_minutes cfg * 60)"
    and none: "same_count a (recent s0 g) = 0"
    and other: "last_content (last_of s0 g) \<noteq> a"
  shows "snd (run cfg s0
      [\<lparr>call_message = Some (group_msg g a), call_time = t1, call_send_returns = ok1\<rparr>,
       \<lparr>call_message = Some (group_msg g a), call_time = t2, call_send_returns = ok2\<rparr>,
       \<lparr>call_message = Some (group_msg g a), call_time = t3, call_send_returns = ok3\<rparr>])
     = [Inr NoAction, Inr NoAction, if ok3 then Inr (Echo g a) else Inl (SendError g a)]"
proof -
  let ?W = "seconds (time_window_minutes cfg * 60)"
  let ?e1 = "\<lparr>time = t1, content = a\<rparr>"
  let ?e2 = "\<lparr>time = t2, content = a\<rparr>"
  let ?e3 = "\<lparr>time = t3, content = a\<rparr>"
  define s1 where "s1 = fst (process cfg s0 g a t1 ok1)"
  define s2 where "s2 = fst (process cfg s1 g a t2 ok2)"
  have W0: "0 \<le> ?W" using w12 by linarith
  obtain z1 where z1: "suffix z1 (recent s0 g)" "window cfg s0 g a t1 = z1 @ [?e1]"
    using window_tail [of s0 g "recent s0 g" "[]" cfg t1 a] W0 size by auto
  have c1: "same_count a (window cfg s0 g a t1) = 1"
    using same_count_suffix_zero [OF z1(1) none] by (simp add: z1(2) same_count_append)
  have q1: "snd (process cfg s0 g a t1 ok1) = Inr NoAction"
    and l1: "last_of s1 g = last_of s0 g"
    unfolding s1_def using c1 req by (simp_all add: process_quiet)
  have r1: "recent s1 g = z1 @ [?e1]"
    unfolding s1_def by (simp add: process_recent z1(2))
  have "t2 - t1 \<le> ?W" using w12 by linarith
  then have "\<forall>m \<in> set [?e1]. in_time_window cfg t2 m"
    by (simp add: in_time_window_le)
  then obtain z2 where z2: "suffix z2 z1" "window cfg s1 g a t2 = z2 @ [?e1, ?e2]"
    using window_tail [of s1 g z1 "[?e1]" cfg t2 a] r1 W0 size by auto
  have n2: "same_count a z2 = 0"
    using same_count_suffix_zero [OF z2(1)] same_count_suffix_zero [OF z1(1) none] by simp
  have c2: "same_count a (window cfg s1 g a t2) = 2"
    using n2 by (simp add: z2(2) same_count_append)
  have q2: "snd (process cfg s1 g a t2 ok2) = Inr NoAction"
    and l2: "last_of s2 g = last_of s1 g"
    unfolding s2_def using c2 req by (simp_all add: process_quiet)
  have r2: "recent s2 g = z2 @ [?e1, ?e2]"
    unfolding s2_def by (simp add: process_recent z2(2))
  have "t3 - t1 \<le> ?W" and "t3 - t2 \<le> ?W" using w13 w23 by linarith+
  then have "\<forall>m \<in> set [?e1, ?e2]. in_time_window cfg t3 m"
    by (simp add: in_time_window_le)
  then obtain z3 where z3: "suffix z3 z2" "window cfg s2 g a t3 = z3 @ [?e1, ?e2, ?e3]"
    using window_tail [of s2 g z2 "[?e1, ?e2]" cfg t3 a] r2 W0 size by auto
  have c3: "same_count a (window cfg s2 g a t3) = 3"
    using same_count_suffix_zero [OF z3(1) n2] by (simp add: z3(2) same_count_append)
  have q3: "snd (process cfg s2 g a t3 ok3)
      = (if ok3 then Inr (Echo g a) else Inl (SendError g a))"
    using c3 req other l1 l2 by (simp add: process_snd can_repeat_other_content)
  show ?thesis
    using q1 q2 q3 acc
    by (simp add: run_Cons_snd run_Cons_fst execute_group_msg s1_def s2_def del: run.simps(2))
qed

lemma echo_only_if:
  assumes "snd (execute cfg s message t ok) \<noteq> Inr NoAction"
  shows "\<exists>g c. message = Some (group_msg g c) \<and> accepted cfg g c \<and>
      snd (execute cfg s message t ok) = (if ok then Inr (Echo g c) else Inl (SendError g c)) \<and>
      required_same_count cfg \<le> same_count c (window cfg s g c t) \<and>
      (last_content (last_of s g) \<noteq> c \<or> last_timestamp (last_of s g) = None \<or>
       (\<exists>tl. last_timestamp (last_of s g) = Some tl \<and>
             seconds (repeat_cooldown_minutes cfg * 60) < t - tl))"
proof -
  from execute_cases [of cfg s message t ok] assms
  obtain g c where gc: "message = Some (group_msg g c)" "accepted cfg g c"
      "execute cfg s message t ok = process cfg s g c t ok"
    by auto
  from assms have cr: "can_repeat cfg (last_of s g) c t (same_count c (window cfg s g c t))"
    by (simp add: gc(3) process_snd split: if_splits)
  then have "required_same_count cfg \<le> same_count c (window cfg s g c t) \<and>
      (last_content (last_of s g) \<noteq> c \<or> last_timestamp (last_of s g) = None \<or>
       (\<exists>tl. last_timestamp (last_of s g) = Some tl \<and>
             seconds (repeat_cooldown_minutes cfg * 60) < t - tl))"
    by (auto simp: can_repeat_def seconds_def split: if_splits option.splits
        dest: total_seconds_gt_minutes)
  then show ?thesis using gc cr by (auto simp: process_snd)
qed

text \<open>
  Claim C1, as amended. With \<open>required_same_count = 3\<close> and \<open>message_window_size\<close> at
  least 3: three messages of one group with the same text that passes the guards, at three
  distinct clock readings that lie within the time window of one another, in a handler
  whose list for the group holds no entry with that text and whose last repeat for the
  group is not that text, make the first and the second call send nothing and the third
  call \<^verbatim>\<open>send_text\<close> with the group and exactly that text. And in general a call sends
  only the text of its message to the group of its message, only when the number of
  entries of the new window equal to that text is at least \<open>required_same_count\<close>, and
  only when the last repeat of the group is another text, or has no timestamp, or is older
  than \<open>repeat_cooldown_minutes\<close>.
\<close>

theorem trigger_on_third:
  "(required_same_count cfg = 3 \<and> 3 \<le> message_window_size cfg \<and> accepted cfg g a \<and>
    t1 \<noteq> t2 \<and> t1 \<noteq> t3 \<and> t2 \<noteq> t3 \<and>
    \<bar>t2 - t1\<bar> \<le> seconds (time_window_minutes cfg * 60) \<and>
    \<bar>t3 - t1\<bar> \<le> seconds (time_window_minutes cfg * 60) \<and>
    \<bar>t3 - t2\<bar> \<le> seconds (time_window_minutes cfg * 60) \<and>
    same_count a (recent s0 g) = 0 \<and> last_content (last_of s0 g) \<noteq> a \<longrightarrow>
    snd (run cfg s0
      [\<lparr>call_message = Some (group_msg g a), call_time = t1, call_send_returns = ok1\<rparr>,
       \<lparr>call_message = Some (group_msg g a), call_time = t2, call_send_returns = ok2\<rparr>,
       \<lparr>call_message = Some (group_msg g a), call_time = t3, call_send_returns = ok3\<rparr>])
     = [Inr NoAction, Inr NoAction, if ok3 then Inr (Echo g a) else Inl (SendError g a)]) \<and>
   (snd (execute cfg s message t ok) \<noteq> Inr NoAction \<longrightarrow>
     (\<exists>h c. message = Some (group_msg h c) \<and> accepted cfg h c \<and>
        snd (execute cfg s message t ok)
          = (if ok then Inr (Echo h c) else Inl (SendError h c)) \<and>
        required_same_count cfg \<le> same_count c (window cfg s h c t) \<and>
        (last_content (last_of s h) \<noteq> c \<or> last_timestamp (last_of s h) = None \<or>
         (\<exists>tl. last_timestamp (last_of s h) = Some tl \<and>
               seconds (repeat_cooldown_minutes cfg * 60) < t - tl))))"
  using three_in_a_row [of cfg g a t1 t2 t3 s0 ok1 ok2 ok3]
    echo_only_if [of cfg s message t ok]
  by blast

theorem trigger_on_third_witness:
  "snd (run default_config init
     [\<lparr>call_message = Some (group_msg ''g'' ''A''), call_time = 0, call_send_returns = True\<rparr>,
      \<lparr>call_message = Some (group_msg ''g'' ''A''), call_time = 1000000, call_send_returns = True\<rparr>,
      \<lparr>call_message = Some (group_msg ''g'' ''A''), call_time = 2000000, call_send_returns = True\<rparr>])
   = [Inr NoAction, Inr NoAction, Inr (Echo ''g'' ''A'')] \<and>
   snd (execute default_config
      (init\<lparr>group_messages := [''g'' \<mapsto> [\<lparr>time = 0, content = ''A''\<rparr>,
         \<lparr>time = 1000000, content = ''A''\<rparr>]]\<rparr>)
      (Some (group_msg ''g'' ''A'')) 2000000 True) \<noteq> Inr NoAction \<and>
   required_same_count default_config \<le> same_count ''A'' (window default_config
      (init\<lparr>group_messages := [''g'' \<mapsto> [\<lparr>time = 0, content = ''A''\<rparr>,
         \<lparr>time = 1000000, content = ''A''\<rparr>]]\<rparr>) ''g'' ''A'' 2000000)"
proof -
  let ?s = "init\<lparr>group_messages := [''g'' \<mapsto> [\<lparr>time = 0, content = ''A''\<rparr>,
         \<lparr>time = 1000000, content = ''A''\<rparr>]]\<rparr>"
  note th = trigger_on_third [where cfg = default_config and g = "''g''" and a = "''A''"
      and ?t1.0 = 0 and ?t2.0 = 1000000 and ?t3.0 = 2000000 and ?s0.0 = init and ?ok1.0 = True
      and ?ok2.0 = True and ?ok3.0 = True and s = ?s and message = "Some (group_msg ''g'' ''A'')"
      and t = 2000000 and ok = True]
  have hyp1: "required_same_count default_config = 3 \<and> 3 \<le> message_window_size default_config \<and>
    accepted default_config ''g'' ''A'' \<and>
    (0::int) \<noteq> 1000000 \<and> (0::int) \<noteq> 2000000 \<and> (1000000::int) \<noteq> 2000000 \<and>
    \<bar>1000000 - 0\<bar> \<le> seconds (time_window_minutes default_config * 60) \<and>
    \<bar>2000000 - 0\<bar> \<le> seconds (time_window_minutes default_config * 60) \<and>
    \<bar>2000000 - 1000000\<bar> \<le> seconds (time_window_minutes default_config * 60) \<and>
    same_count ''A'' (recent init ''g'') = 0 \<and> last_content (last_of init ''g'') \<noteq> ''A''"
    by (simp add: default_config_def accepted_def seconds_def recent_def init_def last_of_def)
  have hyp2: "snd (execute default_config ?s (Some (group_msg ''g'' ''A'')) 2000000 True)
      \<noteq> Inr NoAction"
    by (simp add: step_defs)
  from th hyp1 have a: "snd (run default_config init
     [\<lparr>call_message = Some (group_msg ''g'' ''A''), call_time = 0, call_send_returns = True\<rparr>,
      \<lparr>call_message = Some (group_msg ''g'' ''A''), call_time = 1000000, call_send_returns = True\<rparr>,
      \<lparr>call_message = Some (group_msg ''g'' ''A''), call_time = 2000000, call_send_returns = True\<rparr>])
   = [Inr NoAction, Inr NoAction, Inr (Echo ''g'' ''A'')]"
    by simp
  from th hyp2 obtain h c where
    "Some (group_msg ''g'' ''A'') = Some (group_msg h c)"
    "required_same_count default_config \<le> same_count c (window default_config ?s h c 2000000)"
    by blast
  then have b: "required_same_count default_config
      \<le> same_count ''A'' (window default_config ?s ''g'' ''A'' 2000000)"
    by (simp add: group_msg_def)
  from a hyp2 b show ?thesis by blast
qed

text \<open>
  Claim C1 as stated fails when the window holds fewer than three messages: with
  \<open>message_window_size = 2\<close> the third call keeps two entries, counts two, and sends
  nothing.
\<close>

theorem trigger_on_third_counterexample:
  "snd (run (default_config\<lparr>message_window_size := 2\<rparr>) init
     [\<lparr>call_message = Some (group_msg ''g'' ''A''), call_time = 0, call_send_returns = True\<rparr>,
      \<lparr>call_message = Some (group_msg ''g'' ''A''), call_time = 1000000, call_send_returns = True\<rparr>,
      \<lparr>call_message = Some (group_msg ''g'' ''A''), call_time = 2000000, call_send_returns = True\<rparr>])
   = [Inr NoAction, Inr NoAction, Inr NoAction]"
  by (simp add: step_defs)

text \<open>
  Two values of \<^verbatim>\<open>total_seconds()\<close> as Python returns them: one microsecond above
  17179869240 s, and three microseconds above 68719476780 s, are both rounded away.
\<close>

lemma total_seconds_one_microsecond: "total_seconds 17179869240000001 = 17179869240"
proof -
  have e: "exponent 17179869240000001 0 = 18"
    by (rule exponent_unique) simp_all
  have "mantissa 17179869240000001 = 17179869240 * 2 ^ 18"
    by (simp add: mantissa_def e round_half_even_def Let_def)
  then show ?thesis by (simp add: total_seconds_def e)
qed

lemma total_seconds_rounds_down: "total_seconds 68719476780000003 = 68719476780"
proof -
  have e: "exponent 68719476780000003 0 = 16"
    by (rule exponent_unique) simp_all
  have "mantissa 68719476780000003 = 68719476780 * 2 ^ 16"
    by (simp add: mantissa_def e round_half_even_def Let_def)
  then show ?thesis by (simp add: total_seconds_def e)
qed

text \<open>
  Claim C2, as amended. After a call that sent an echo of \<open>a\<close> to group \<open>g\<close> at \<open>t0\<close>,
  and as long as no later call has sent another echo to \<open>g\<close>: every message of \<open>g\<close> with
  the text \<open>a\<close> at a clock reading at most \<open>repeat_cooldown_minutes\<close> after \<open>t0\<close> sends
  nothing, whatever its window counts and whatever calls lie in between; and when
  \<open>repeat_cooldown_minutes\<close> is shorter than \<open>2 ^ 34\<close> seconds, a message with the text
  \<open>a\<close> more than \<open>repeat_cooldown_minutes\<close> after \<open>t0\<close>, whose window counts at least
  \<open>required_same_count\<close> entries of \<open>a\<close>, is echoed again. The calls in between are any
  calls: repeats of \<open>a\<close> inside the cooldown, or calls that do not echo to \<open>g\<close>.
\<close>

theorem cooldown_suppression:
  assumes "execute cfg s0 message t0 ok0 = (s1, Inr (Echo g a))"
    and "\<forall>(c, r) \<in> set (zip cs (snd (run cfg s1 cs))).
           (call_message c = Some (group_msg g a) \<and>
            call_time c - t0 \<le> seconds (repeat_cooldown_minutes cfg * 60)) \<or>
           (\<forall>x. r \<noteq> Inr (Echo g x))"
  shows "(\<forall>(c, r) \<in> set (zip cs (snd (run cfg s1 cs))).
           call_message c = Some (group_msg g a) \<and>
           call_time c - t0 \<le> seconds (repeat_cooldown_minutes cfg * 60) \<longrightarrow>
           r = Inr NoAction) \<and>
     (t - t0 \<le> seconds (repeat_cooldown_minutes cfg * 60) \<longrightarrow>
        snd (execute cfg (fst (run cfg s1 cs)) (Some (group_msg g a)) t ok) = Inr NoAction) \<and>
     (seconds (repeat_cooldown_minutes cfg * 60) < t - t0 \<and>
      \<bar>repeat_cooldown_minutes cfg * 60\<bar> < 2 ^ 34 \<and>
      required_same_count cfg \<le> same_count a (window cfg (fst (run cfg s1 cs)) g a t) \<longrightarrow>
        snd (execute cfg (fst (run cfg s1 cs)) (Some (group_msg g a)) t ok)
          = (if ok then Inr (Echo g a) else Inl (SendError g a)))"
proof -
  note kept = run_record_kept [OF execute_echo(2) [OF assms(1)] assms(2)]
  have acc: "accepted cfg g a" by (rule execute_echo(1) [OF assms(1)])
  have l: "last_of (fst (run cfg s1 cs)) g = \<lparr>last_content = a, last_timestamp = Some t0\<rparr>"
    using kept by simp
  have within: "snd (execute cfg (fst (run cfg s1 cs)) (Some (group_msg g a)) t ok)
      = Inr NoAction"
    if "t - t0 \<le> seconds (repeat_cooldown_minutes cfg * 60)"
    using execute_in_cooldown [OF l that] .
  have after: "snd (execute cfg (fst (run cfg s1 cs)) (Some (group_msg g a)) t ok)
      = (if ok then Inr (Echo g a) else Inl (SendError g a))"
    if "seconds (repeat_cooldown_minutes cfg * 60) < t - t0"
      and "\<bar>repeat_cooldown_minutes cfg * 60\<bar> < 2 ^ 34"
      and "required_same_count cfg \<le> same_count a (window cfg (fst (run cfg s1 cs)) g a t)"
    using can_repeat_after_cooldown [OF that(2) that(1) that(3), of a] acc l
    by (simp add: execute_group_msg process_snd)
  show ?thesis using kept within after by blast
qed

theorem cooldown_suppression_witness:
  "snd (run default_config
     (fst (execute default_config
        (init\<lparr>group_messages := [''g'' \<mapsto> [\<lparr>time = 0, content = ''A''\<rparr>,
           \<lparr>time = 1000000, content = ''A''\<rparr>]]\<rparr>)
        (Some (group_msg ''g'' ''A'')) 2000000 True))
     [\<lparr>call_message = Some (group_msg ''g'' ''A''), call_time = 3000000,
        call_send_returns = True\<rparr>,
      \<lparr>call_message = Some (group_msg ''g'' ''B''), call_time = 4000000,
        call_send_returns = True\<rparr>,
      \<lparr>call_message = Some (group_msg ''g'' ''A''), call_time = 700000000,
        call_send_returns = True\<rparr>,
      \<lparr>call_message = Some (group_msg ''g'' ''A''), call_time = 701000000,
        call_send_returns = True\<rparr>])
   = [Inr NoAction, Inr NoAction, Inr NoAction, Inr NoAction] \<and>
   required_same_count default_config \<le> same_count ''A'' (window default_config
     (fst (execute default_config
        (init\<lparr>group_messages := [''g'' \<mapsto> [\<lparr>time = 0, content = ''A''\<rparr>,
           \<lparr>time = 1000000, content = ''A''\<rparr>]]\<rparr>)
        (Some (group_msg ''g'' ''A'')) 2000000 True)) ''g'' ''A'' 3000000) \<and>
   snd (execute default_config
     (fst (run default_config
       (fst (execute default_config
          (init\<lparr>group_messages := [''g'' \<mapsto> [\<lparr>time = 0, content = ''A''\<rparr>,
             \<lparr>time = 1000000, content = ''A''\<rparr>]]\<rparr>)
          (Some (group_msg ''g'' ''A'')) 2000000 True))
       [\<lparr>call_message = Some (group_msg ''g'' ''A''), call_time = 3000000,
          call_send_returns = True\<rparr>,
        \<lparr>call_message = Some (group_msg ''g'' ''B''), call_time = 4000000,
          call_send_returns = True\<rparr>,
        \<lparr>call_message = Some (group_msg ''g'' ''A''), call_time = 700000000,
          call_send_returns = True\<rparr>,
        \<lparr>call_message = Some (group_msg ''g'' ''A''), call_time = 701000000,
          call_send_returns = True\<rparr>]))
     (Some (group_msg ''g'' ''A'')) 702000000 True)
   = Inr (Echo ''g'' ''A'')"
proof -
  let ?s0 = "init\<lparr>group_messages := [''g'' \<mapsto> [\<lparr>time = 0, content = ''A''\<rparr>,
           \<lparr>time = 1000000, content = ''A''\<rparr>]]\<rparr>"
  let ?s1 = "fst (execute default_config ?s0 (Some (group_msg ''g'' ''A'')) 2000000 True)"
  let ?cs = "[\<lparr>call_message = Some (group_msg ''g'' ''A''), call_time = 3000000,
        call_send_returns = True\<rparr>,
      \<lparr>call_message = Some (group_msg ''g'' ''B''), call_time = 4000000,
        call_send_returns = True\<rparr>,
      \<lparr>call_message = Some (group_msg ''g'' ''A''), call_time = 700000000,
        call_send_returns = True\<rparr>,
      \<lparr>call_message = Some (group_msg ''g'' ''A''), call_time = 701000000,
        call_send_returns = True\<rparr>]"
  have "snd (execute default_config ?s0 (Some (group_msg ''g'' ''A'')) 2000000 True)
      = Inr (Echo ''g'' ''A'')"
    by (simp add: step_defs)
  then have echo: "execute default_config ?s0 (Some (group_msg ''g'' ''A'')) 2000000 True
      = (?s1, Inr (Echo ''g'' ''A''))"
    by (simp add: prod_eq_iff)
  have rs: "snd (run default_config ?s1 ?cs)
      = [Inr NoAction, Inr NoAction, Inr NoAction, Inr NoAction]"
    by (simp add: step_defs)
  have between: "\<forall>(c, r) \<in> set (zip ?cs (snd (run default_config ?s1 ?cs))).
      (call_message c = Some (group_msg ''g'' ''A'') \<and>
       call_time c - 2000000 \<le> seconds (repeat_cooldown_minutes default_config * 60)) \<or>
      (\<forall>x. r \<noteq> Inr (Echo ''g'' x))"
    unfolding rs by simp
  have qualifies: "required_same_count default_config
      \<le> same_count ''A'' (window default_config ?s1 ''g'' ''A'' 3000000)"
    by (simp add: step_defs)
  have after: "seconds (repeat_cooldown_minutes default_config * 60) < 702000000 - 2000000"
    and small: "\<bar>repeat_cooldown_minutes default_config * 60\<bar> < 2 ^ 34"
    by (simp_all add: default_config_def seconds_def)
  have cnt: "required_same_count default_config
      \<le> same_count ''A'' (window default_config (fst (run default_config ?s1 ?cs))
            ''g'' ''A'' 702000000)"
    by (simp add: step_defs)
  from cooldown_suppression [OF echo between, of 702000000 True] after small cnt
  have "snd (execute default_config (fst (run default_config ?s1 ?cs))
      (Some (group_msg ''g'' ''A'')) 702000000 True) = Inr (Echo ''g'' ''A'')"
    by simp
  with rs qualifies show ?thesis by blast
qed

text \<open>
  Claim C2 as stated fails for a cooldown of \<open>2 ^ 34\<close> seconds or more, where the double
  of line 112 loses microseconds. With a cooldown of 1145324613 minutes (68719476780 s)
  and an echo of \<open>A\<close> at 2 s, three new messages \<open>A\<close> that come 1, 2 and 3 microseconds
  after the end of the cooldown fill the window with three entries; the elapsed time of
  the third exceeds the cooldown, its double is the cooldown itself, and nothing is sent.
\<close>

theorem cooldown_suppression_counterexample:
  "snd (run (default_config\<lparr>repeat_cooldown_minutes := 1145324613\<rparr>) init
     [\<lparr>call_message = Some (group_msg ''g'' ''A''), call_time = 0, call_send_returns = True\<rparr>,
      \<lparr>call_message = Some (group_msg ''g'' ''A''), call_time = 1000000, call_send_returns = True\<rparr>,
      \<lparr>call_message = Some (group_msg ''g'' ''A''), call_time = 2000000, call_send_returns = True\<rparr>,
      \<lparr>call_message = Some (group_msg ''g'' ''A''), call_time = 68719476782000001,
        call_send_returns = True\<rparr>,
      \<lparr>call_message = Some (group_msg ''g'' ''A''), call_time = 68719476782000002,
        call_send_returns = True\<rparr>,
      \<lparr>call_message = Some (group_msg ''g'' ''A''), call_time = 68719476782000003,
        call_send_returns = True\<rparr>])
   = [Inr NoAction, Inr NoAction, Inr (Echo ''g'' ''A''),
      Inr NoAction, Inr NoAction, Inr NoAction] \<and>
   recent (fst (run (default_config\<lparr>repeat_cooldown_minutes := 1145324613\<rparr>) init
     [\<lparr>call_message = Some (group_msg ''g'' ''A''), call_time = 0, call_send_returns = True\<rparr>,
      \<lparr>call_message = Some (group_msg ''g'' ''A''), call_time = 1000000, call_send_returns = True\<rparr>,
      \<lparr>call_message = Some (group_msg ''g'' ''A''), call_time = 2000000, call_send_returns = True\<rparr>,
      \<lparr>call_message = Some (group_msg ''g'' ''A''), call_time = 68719476782000001,
        call_send_returns = True\<rparr>,
      \<lparr>call_message = Some (group_msg ''g'' ''A''), call_time = 68719476782000002,
        call_send_returns = True\<rparr>,
      \<lparr>call_message = Some (group_msg ''g'' ''A''), call_time = 68719476782000003,
        call_send_returns = True\<rparr>])) ''g''
   = [\<lparr>time = 68719476782000001, content = ''A''\<rparr>,
      \<lparr>time = 68719476782000002, content = ''A''\<rparr>,
      \<lparr>time = 68719476782000003, content = ''A''\<rparr>] \<and>
   seconds (repeat_cooldown_minutes (default_config\<lparr>repeat_cooldown_minutes := 1145324613\<rparr>)
       * 60) < 68719476782000001 - 2000000"
  by (simp add: execute_def process_def window_def prune_def limit_def slice_last_def
      in_time_window_exact seconds_def recent_def last_of_def can_repeat_def group_msg_def
      default_config_def init_def Let_def total_seconds_rounds_down)

text \<open>
  Claim C3. After a call that sent an echo of \<open>a\<close> to group \<open>g\<close>, and any calls after it
  that sent nothing, a message of \<open>g\<close> with another text \<open>b\<close> whose window counts at
  least \<open>required_same_count\<close> entries of \<open>b\<close> is echoed at once, at every clock reading.
\<close>

theorem content_change_bypass:
  assumes "execute cfg s0 message t0 ok0 = (s1, Inr (Echo g a))"
    and "\<forall>r \<in> set (snd (run cfg s1 cs)). r = Inr NoAction"
    and "b \<noteq> a" and "accepted cfg g b"
    and "required_same_count cfg \<le> same_count b (window cfg (fst (run cfg s1 cs)) g b t)"
  shows "snd (execute cfg (fst (run cfg s1 cs)) (Some (group_msg g b)) t ok)
       = (if ok then Inr (Echo g b) else Inl (SendError g b))"
proof -
  have "last_of (fst (run cfg s1 cs)) g = \<lparr>last_content = a, last_timestamp = Some t0\<rparr>"
    using run_quiet_last [OF assms(2)] execute_echo(2) [OF assms(1)] by simp
  then show ?thesis
    using assms(3,4,5) by (simp add: execute_group_msg process_snd can_repeat_other_content)
qed

theorem content_change_bypass_witness:
  "snd (run default_config
     (fst (execute default_config
        (init\<lparr>group_messages := [''g'' \<mapsto> [\<lparr>time = 0, content = ''A''\<rparr>,
           \<lparr>time = 1000000, content = ''A''\<rparr>]]\<rparr>)
        (Some (group_msg ''g'' ''A'')) 2000000 True))
     [\<lparr>call_message = Some (group_msg ''g'' ''B''), call_time = 3000000,
        call_send_returns = True\<rparr>,
      \<lparr>call_message = Some (group_msg ''g'' ''B''), call_time = 4000000,
        call_send_returns = True\<rparr>])
   = [Inr NoAction, Inr NoAction] \<and>
   snd (execute default_config
     (fst (run default_config
       (fst (execute default_config
          (init\<lparr>group_messages := [''g'' \<mapsto> [\<lparr>time = 0, content = ''A''\<rparr>,
             \<lparr>time = 1000000, content = ''A''\<rparr>]]\<rparr>)
          (Some (group_msg ''g'' ''A'')) 2000000 True))
       [\<lparr>call_message = Some (group_msg ''g'' ''B''), call_time = 3000000,
          call_send_returns = True\<rparr>,
        \<lparr>call_message = Some (group_msg ''g'' ''B''), call_time = 4000000,
          call_send_returns = True\<rparr>]))
     (Some (group_msg ''g'' ''B'')) 5000000 True)
   = Inr (Echo ''g'' ''B'')"
proof -
  let ?s0 = "init\<lparr>group_messages := [''g'' \<mapsto> [\<lparr>time = 0, content = ''A''\<rparr>,
           \<lparr>time = 1000000, content = ''A''\<rparr>]]\<rparr>"
  let ?s1 = "fst (execute default_config ?s0 (Some (group_msg ''g'' ''A'')) 2000000 True)"
  let ?cs = "[\<lparr>call_message = Some (group_msg ''g'' ''B''), call_time = 3000000,
        call_send_returns = True\<rparr>,
      \<lparr>call_message = Some (group_msg ''g'' ''B''), call_time = 4000000,
        call_send_returns = True\<rparr>]"
  have "snd (execute default_config ?s0 (Some (group_msg ''g'' ''A'')) 2000000 True)
      = Inr (Echo ''g'' ''A'')"
    by (simp add: step_defs)
  then have echo: "execute default_config ?s0 (Some (group_msg ''g'' ''A'')) 2000000 True
      = (?s1, Inr (Echo ''g'' ''A''))"
    by (simp add: prod_eq_iff)
  have rs: "snd (run default_config ?s1 ?cs) = [Inr NoAction, Inr NoAction]"
    by (simp add: step_defs)
  then have quiet: "\<forall>r \<in> set (snd (run default_config ?s1 ?cs)). r = Inr NoAction"
    by simp
  have ne: "''B'' \<noteq> ''A''" by simp
  have acc: "accepted default_config ''g'' ''B''"
    by (simp add: accepted_def default_config_def)
  have cnt: "required_same_count default_config
      \<le> same_count ''B'' (window default_config (fst (run default_config ?s1 ?cs))
            ''g'' ''B'' 5000000)"
    by (simp add: step_defs)
  from content_change_bypass [OF echo quiet ne acc cnt, of True] rs
  show ?thesis by simp
qed

section \<open>A send that fails\<close>

text \<open>
  Claim C7, as amended. When the trigger condition holds, the new window of the group is
  stored whether \<^verbatim>\<open>send_text\<close> returns or raises, and nothing is rolled back. The last
  repeat of the group becomes the text and the clock reading of the call only when
  \<^verbatim>\<open>send_text\<close> returns; when it raises, the error leaves \<open>execute\<close> and the last
  repeat of the group is what it was before the call.
\<close>

theorem send_failure_state:
  assumes "accepted cfg g c"
    and "can_repeat cfg (last_of s g) c t (same_count c (window cfg s g c t))"
  shows "snd (execute cfg s (Some (group_msg g c)) t ok)
           = (if ok then Inr (Echo g c) else Inl (SendError g c)) \<and>
         group_messages (fst (execute cfg s (Some (group_msg g c)) t ok)) g
           = Some (window cfg s g c t) \<and>
         last_repeated_content (fst (execute cfg s (Some (group_msg g c)) t ok)) g
           = Some (if ok then \<lparr>last_content = c, last_timestamp = Some t\<rparr> else last_of s g)"
  using assms
  by (simp add: execute_group_msg process_snd process_group_messages process_last_repeated)

theorem send_failure_state_witness:
  "accepted default_config ''g'' ''A'' \<and>
   snd (execute default_config
        (init\<lparr>group_messages := [''g'' \<mapsto> [\<lparr>time = 0, content = ''A''\<rparr>,
           \<lparr>time = 1000000, content = ''A''\<rparr>]]\<rparr>)
        (Some (group_msg ''g'' ''A'')) 2000000 False)
     = Inl (SendError ''g'' ''A'') \<and>
   last_repeated_content (fst (execute default_config
        (init\<lparr>group_messages := [''g'' \<mapsto> [\<lparr>time = 0, content = ''A''\<rparr>,
           \<lparr>time = 1000000, content = ''A''\<rparr>]]\<rparr>)
        (Some (group_msg ''g'' ''A'')) 2000000 False)) ''g''
     = Some \<lparr>last_content = [], last_timestamp = None\<rparr>"
proof -
  let ?s0 = "init\<lparr>group_messages := [''g'' \<mapsto> [\<lparr>time = 0, content = ''A''\<rparr>,
           \<lparr>time = 1000000, content = ''A''\<rparr>]]\<rparr>"
  have acc: "accepted default_config ''g'' ''A''"
    by (simp add: accepted_def default_config_def)
  have cr: "can_repeat default_config (last_of ?s0 ''g'') ''A'' 2000000
      (same_count ''A'' (window default_config ?s0 ''g'' ''A'' 2000000))"
    by (simp add: step_defs)
  have "last_of ?s0 ''g'' = \<lparr>last_content = [], last_timestamp = None\<rparr>"
    by (simp add: last_of_def init_def)
  with send_failure_state [OF acc cr, of False] acc show ?thesis by simp
qed

text \<open>
  Claim C7 as stated fails: the third of three equal messages triggers, the send raises,
  and the handler is left with the window of three entries and with the last repeat still
  empty.
\<close>

theorem send_failure_counterexample:
  "snd (run default_config init
     [\<lparr>call_message = Some (group_msg ''g'' ''A''), call_time = 0, call_send_returns = True\<rparr>,
      \<lparr>call_message = Some (group_msg ''g'' ''A''), call_time = 1000000, call_send_returns = True\<rparr>,
      \<lparr>call_message = Some (group_msg ''g'' ''A''), call_time = 2000000, call_send_returns = False\<rparr>])
   = [Inr NoAction, Inr NoAction, Inl (SendError ''g'' ''A'')] \<and>
   recent (fst (run default_config init
     [\<lparr>call_message = Some (group_msg ''g'' ''A''), call_time = 0, call_send_returns = True\<rparr>,
      \<lparr>call_message = Some (group_msg ''g'' ''A''), call_time = 1000000, call_send_returns = True\<rparr>,
      \<lparr>call_message = Some (group_msg ''g'' ''A''), call_time = 2000000, call_send_returns = False\<rparr>]))
     ''g''
   = [\<lparr>time = 0, content = ''A''\<rparr>, \<lparr>time = 1000000, content = ''A''\<rparr>,
      \<lparr>time = 2000000, content = ''A''\<rparr>] \<and>
   last_of (fst (run default_config init
     [\<lparr>call_message = Some (group_msg ''g'' ''A''), call_time = 0, call_send_returns = True\<rparr>,
      \<lparr>call_message = Some (group_msg ''g'' ''A''), call_time = 1000000, call_send_returns = True\<rparr>,
      \<lparr>call_message = Some (group_msg ''g'' ''A''), call_time = 2000000, call_send_returns = False\<rparr>]))
     ''g''
   = \<lparr>last_content = [], last_timestamp = None\<rparr>"
  by (simp add: step_defs)

section \<open>One last repeat per group\<close>

text \<open>
  Claim C10. With the default options there is a sequence of calls in which the text
  \<open>C\<close> is echoed twice in one group less than \<open>repeat_cooldown_minutes\<close> apart: \<open>C\<close> is
  echoed on its third message (at 2 s), then \<open>D\<close> is echoed on its third message
  (at 202 s) and replaces the last repeat, then a new run of three \<open>C\<close> is echoed on its
  third message (at 402 s), 400 s after the first echo of \<open>C\<close>.
\<close>

theorem retrigger_within_cooldown:
  "snd (run default_config init
     [\<lparr>call_message = Some (group_msg ''g'' ''C''), call_time = 0, call_send_returns = True\<rparr>,
      \<lparr>call_message = Some (group_msg ''g'' ''C''), call_time = 1000000, call_send_returns = True\<rparr>,
      \<lparr>call_message = Some (group_msg ''g'' ''C''), call_time = 2000000, call_send_returns = True\<rparr>,
      \<lparr>call_message = Some (group_msg ''g'' ''D''), call_time = 200000000, call_send_returns = True\<rparr>,
      \<lparr>call_message = Some (group_msg ''g'' ''D''), call_time = 201000000, call_send_returns = True\<rparr>,
      \<lparr>call_message = Some (group_msg ''g'' ''D''), call_time = 202000000, call_send_returns = True\<rparr>,
      \<lparr>call_message = Some (group_msg ''g'' ''C''), call_time = 400000000, call_send_returns = True\<rparr>,
      \<lparr>call_message = Some (group_msg ''g'' ''C''), call_time = 401000000, call_send_returns = True\<rparr>,
      \<lparr>call_message = Some (group_msg ''g'' ''C''), call_time = 402000000, call_send_returns = True\<rparr>])
   = [Inr NoAction, Inr NoAction, Inr (Echo ''g'' ''C''),
      Inr NoAction, Inr NoAction, Inr (Echo ''g'' ''D''),
      Inr NoAction, Inr NoAction, Inr (Echo ''g'' ''C'')] \<and>
   402000000 - 2000000 < seconds (repeat_cooldown_minutes default_config * 60)"
  by (simp add: step_defs)

end
